theory Spec2Isabelle
  imports Main "HOL-Library.Sublist"
begin

section \<open>Tokens and the token cursor\<close>

text \<open>
  Modelled from the spec: the token kinds and the token type are declared in
  \<^verbatim>\<open>Lexer.ts\<close>, which is not among the sources. \<open>TT\<close> has the members of the
  enumeration that \<^verbatim>\<open>parse.ts\<close> names (\<^verbatim>\<open>TT.semi\<close>, \<^verbatim>\<open>TT.letKw\<close>, ...); a
  token carries its kind (\<^verbatim>\<open>type\<close>, here \<open>tok_type\<close>) and its raw text
  (\<^verbatim>\<open>text\<close>, here \<open>tok_text\<close>).
\<close>

datatype TT =
    TT_semi | TT_letKw | TT_ident | TT_lParen | TT_rParen | TT_eq | TT_colon
  | TT_bareAtom | TT_quotedAtom | TT_string | TT_lBracket | TT_rBracket
  | TT_matchKw | TT_lCurly | TT_rCurly | TT_arrow | TT_wildcard | TT_amp | TT_comma

record Token =
  tok_type :: TT
  tok_text :: string

text \<open>
  A thrown exception is a value. \<open>SyntaxError\<close> is what the cursor raises,
  \<open>Error msg\<close> is \<^verbatim>\<open>throw new Error(msg)\<close> in the parser itself.
\<close>

datatype error = SyntaxError | Error string

text \<open>
  The cursor is the list of the tokens not yet consumed. A call either runs out of fuel
  (the bound on the depth of calls and loop iterations that makes the recursion of the
  model structural), throws, or returns a value together with the cursor it leaves.
\<close>

type_synonym Lexer = "Token list"

datatype 'a outcome = OutOfFuel | Throw error | Ret 'a Lexer

definition andThen :: "'a outcome \<Rightarrow> ('a \<Rightarrow> Lexer \<Rightarrow> 'b outcome) \<Rightarrow> 'b outcome" where
  "andThen m k = (case m of OutOfFuel \<Rightarrow> OutOfFuel | Throw e \<Rightarrow> Throw e | Ret a l \<Rightarrow> k a l)"

text \<open>
  Modelled from the spec: the class \<^verbatim>\<open>Lexer\<close> (file \<^verbatim>\<open>Lexer.ts\<close>) is not among the
  sources. Its four operations follow the contract of the token cursor: \<open>hasMore\<close> tells
  whether tokens remain; \<open>peek\<close> returns the current token without consuming it and fails
  on exhausted input; \<open>pop\<close> consumes and returns the current token (the parser calls it
  only after a successful \<open>peek\<close>); \<open>expect\<close> consumes the current token if its type is
  among the allowed ones and fails with a syntax error otherwise, and on exhausted input.
\<close>

definition hasMore :: "Lexer \<Rightarrow> bool" where
  "hasMore l = (l \<noteq> [])"

definition peek :: "Lexer \<Rightarrow> Token outcome" where
  "peek l = (case l of [] \<Rightarrow> Throw SyntaxError | t # _ \<Rightarrow> Ret t l)"

definition pop :: "Lexer \<Rightarrow> Token outcome" where
  "pop l = (case l of [] \<Rightarrow> Throw SyntaxError | t # r \<Rightarrow> Ret t r)"

definition expect :: "TT list \<Rightarrow> Lexer \<Rightarrow> Token outcome" where
  "expect tys l = (case l of [] \<Rightarrow> Throw SyntaxError
     | t # r \<Rightarrow> if tok_type t \<in> set tys then Ret t r else Throw SyntaxError)"

text \<open>
  \<open>peekIs tys l\<close> is the test \<^verbatim>\<open>tys.includes(l.peek().type)\<close>, which the source
  evaluates only behind \<^verbatim>\<open>l.hasMore()\<close>.
\<close>

definition peekIs :: "TT list \<Rightarrow> Lexer \<Rightarrow> bool" where
  "peekIs tys l = (case peek l of Ret t _ \<Rightarrow> tok_type t \<in> set tys | _ \<Rightarrow> False)"

section \<open>The syntax trees\<close>

datatype Pattern =
    TreePattern string "Pattern list"
  | WildcardPattern
  | VarPattern string
  | AsPattern string Pattern
  | ConsPattern Pattern Pattern
  | StringPattern string
  | ListPattern "Pattern list"

datatype Term =
    TreeTerm string "Term list"
  | VarTerm string
  | AppTerm string "Term list"
  | ConsTerm Term Term
  | StringTerm string
  | ListTerm "Term list"
  | MatchTerm "Term list" "MatchClause list"
and MatchClause =
    MatchClause (clause_patterns: "Pattern list") (clause_body: Term)

record Def =
  name :: string
  patterns :: "Pattern list"
  body :: Term

datatype Item = DefItem Def | TermItem Term

section \<open>Unescaping quoted text\<close>

text \<open>
  \<^verbatim>\<open>String.prototype.substring(start, end)\<close>: both indices are clamped to
  \<open>[0, length]\<close> and swapped when the first exceeds the second.
\<close>

definition substring :: "string \<Rightarrow> int \<Rightarrow> int \<Rightarrow> string" where
  "substring s a b =
     (let n = int (length s);
          a' = max 0 (min a n);
          b' = max 0 (min b n);
          lo = min a' b';
          hi = max a' b'
      in take (nat (hi - lo)) (drop (nat lo) s))"

text \<open>
  \<open>replaceEscaped q s\<close> is \<^verbatim>\<open>s.replace(/\\q/g, q)\<close> for a quote character \<open>q\<close>:
  scanning from the left, every backslash directly followed by \<open>q\<close> becomes \<open>q\<close>, and the
  scan goes on after the match.
\<close>

fun replaceEscaped :: "char \<Rightarrow> string \<Rightarrow> string" where
  "replaceEscaped q (c # d # cs) =
     (if c = CHR 0x5C \<and> d = q then q # replaceEscaped q cs
      else c # replaceEscaped q (d # cs))"
| "replaceEscaped q cs = cs"

definition startsWith :: "string \<Rightarrow> string \<Rightarrow> bool" where
  "startsWith s p = (take (length p) s = p)"

definition getStringText :: "string \<Rightarrow> string" where
  "getStringText text' =
     (let content = substring text' 1 (int (length text') - 1)
      in if startsWith text' [CHR 0x27]
         then replaceEscaped (CHR 0x27) content
         else replaceEscaped (CHR 0x22) content)"

section \<open>Comma-separated lists\<close>

text \<open>
  \<^verbatim>\<open>parseCommaSep(l, parseElt, stopSet)\<close>. The \<^verbatim>\<open>while\<close> loop is the function
  \<open>parseCommaSepLoopF\<close>, whose argument \<open>elts\<close> is the array built so far.
\<close>

fun parseCommaSepLoopF ::
  "nat \<Rightarrow> (Lexer \<Rightarrow> 'a outcome) \<Rightarrow> TT list \<Rightarrow> 'a list \<Rightarrow> Lexer \<Rightarrow> 'a list outcome" where
  "parseCommaSepLoopF 0 parseElt stopSet elts l = OutOfFuel"
| "parseCommaSepLoopF (Suc n) parseElt stopSet elts l =
     (if hasMore l then
        if peekIs stopSet l then Ret elts l
        else andThen (expect [TT_comma] l) (\<lambda>_ l1.
          if \<not> hasMore l1 \<or> peekIs stopSet l1 then Ret elts l1
          else andThen (parseElt l1) (\<lambda>x l2.
            parseCommaSepLoopF n parseElt stopSet (elts @ [x]) l2))
      else Ret elts l)"

fun parseCommaSepF ::
  "nat \<Rightarrow> (Lexer \<Rightarrow> 'a outcome) \<Rightarrow> TT list \<Rightarrow> Lexer \<Rightarrow> 'a list outcome" where
  "parseCommaSepF 0 parseElt stopSet l = OutOfFuel"
| "parseCommaSepF (Suc n) parseElt stopSet l =
     (if \<not> hasMore l \<or> peekIs stopSet l then Ret [] l
      else andThen (parseElt l) (\<lambda>x l1. parseCommaSepLoopF n parseElt stopSet [x] l1))"

section \<open>The two grammars\<close>

text \<open>
  The text of a start token: unescaped for a quoted atom, raw otherwise.
\<close>

definition startText :: "Token \<Rightarrow> string" where
  "startText start =
     (if tok_type start = TT_quotedAtom then getStringText (tok_text start) else tok_text start)"

fun parsePatternF :: "nat \<Rightarrow> Lexer \<Rightarrow> Pattern outcome"
and parsePatternLoopF :: "nat \<Rightarrow> Pattern \<Rightarrow> Lexer \<Rightarrow> Pattern outcome"
and parsePattern1F :: "nat \<Rightarrow> Lexer \<Rightarrow> Pattern outcome"
and parseTreePatternF :: "nat \<Rightarrow> Lexer \<Rightarrow> Pattern outcome"
and parseVarOrAsPatternF :: "nat \<Rightarrow> Lexer \<Rightarrow> Pattern outcome"
where
  "parsePatternF 0 l = OutOfFuel"
| "parsePatternF (Suc n) l =
     andThen (parsePattern1F n l) (\<lambda>pat l1. parsePatternLoopF n pat l1)"
| "parsePatternLoopF 0 pat l = OutOfFuel"
| "parsePatternLoopF (Suc n) pat l =
     (if hasMore l \<and> peekIs [TT_colon] l then
        andThen (pop l) (\<lambda>_ l1.
        andThen (parsePatternF n l1) (\<lambda>tl l2.
          parsePatternLoopF n (ConsPattern pat tl) l2))
      else Ret pat l)"
| "parsePattern1F 0 l = OutOfFuel"
| "parsePattern1F (Suc n) l =
     andThen (peek l) (\<lambda>peeked _.
       if tok_type peeked \<in> set [TT_bareAtom, TT_quotedAtom] then parseTreePatternF n l
       else if tok_type peeked = TT_wildcard then
         andThen (pop l) (\<lambda>_ l1. Ret WildcardPattern l1)
       else if tok_type peeked = TT_ident then parseVarOrAsPatternF n l
       else if tok_type peeked = TT_string then
         andThen (pop l) (\<lambda>t l1. Ret (StringPattern (getStringText (tok_text t))) l1)
       else if tok_type peeked = TT_lBracket then
         andThen (pop l) (\<lambda>_ l1.
         andThen (parseCommaSepF n (parsePatternF n) [TT_rBracket] l1) (\<lambda>elts l2.
         andThen (expect [TT_rBracket] l2) (\<lambda>_ l3.
           Ret (ListPattern elts) l3)))
       else if tok_type peeked = TT_lParen then
         andThen (pop l) (\<lambda>_ l1.
         andThen (parsePatternF n l1) (\<lambda>inner l2.
         andThen (expect [TT_rParen] l2) (\<lambda>_ l3.
           Ret inner l3)))
       else Throw (Error ''expected a pattern''))"
| "parseTreePatternF 0 l = OutOfFuel"
| "parseTreePatternF (Suc n) l =
     andThen (expect [TT_bareAtom, TT_quotedAtom] l) (\<lambda>start l1.
       if hasMore l1 \<and> peekIs [TT_lParen] l1 then
         andThen (pop l1) (\<lambda>_ l2.
         andThen (parseCommaSepF n (parsePatternF n) [TT_rParen] l2) (\<lambda>children l3.
         andThen (expect [TT_rParen] l3) (\<lambda>_ l4.
           Ret (TreePattern (startText start) children) l4)))
       else Ret (TreePattern (startText start) []) l1)"
| "parseVarOrAsPatternF 0 l = OutOfFuel"
| "parseVarOrAsPatternF (Suc n) l =
     andThen (expect [TT_ident] l) (\<lambda>t l1.
       if hasMore l1 \<and> peekIs [TT_amp] l1 then
         andThen (pop l1) (\<lambda>_ l2.
         andThen (parsePatternF n l2) (\<lambda>p l3.
           Ret (AsPattern (tok_text t) p) l3))
       else Ret (VarPattern (tok_text t)) l1)"

text \<open>
  In \<open>parseTreeOrVarOrAppF\<close> the variable \<open>terms\<close> of the source is the list bound
  after the optional argument list was read.
\<close>

definition treeOrVarOrApp :: "Token \<Rightarrow> Term list \<Rightarrow> Term" where
  "treeOrVarOrApp start terms =
     (if tok_type start = TT_ident then
        if length terms > 0 then AppTerm (startText start) terms
        else VarTerm (startText start)
      else TreeTerm (startText start) terms)"

fun parseTermF :: "nat \<Rightarrow> Lexer \<Rightarrow> Term outcome"
and parseTermLoopF :: "nat \<Rightarrow> Term \<Rightarrow> Lexer \<Rightarrow> Term outcome"
and parseTerm1F :: "nat \<Rightarrow> Lexer \<Rightarrow> Term outcome"
and parseTreeOrVarOrAppF :: "nat \<Rightarrow> Lexer \<Rightarrow> Term outcome"
and parseMatchTermF :: "nat \<Rightarrow> Lexer \<Rightarrow> Term outcome"
and parseMatchClauseF :: "nat \<Rightarrow> Lexer \<Rightarrow> MatchClause outcome"
where
  "parseTermF 0 l = OutOfFuel"
| "parseTermF (Suc n) l =
     andThen (parseTerm1F n l) (\<lambda>term l1. parseTermLoopF n term l1)"
| "parseTermLoopF 0 term l = OutOfFuel"
| "parseTermLoopF (Suc n) term l =
     (if hasMore l \<and> peekIs [TT_colon] l then
        andThen (pop l) (\<lambda>_ l1.
        andThen (parseTermF n l1) (\<lambda>tl l2.
          parseTermLoopF n (ConsTerm term tl) l2))
      else Ret term l)"
| "parseTerm1F 0 l = OutOfFuel"
| "parseTerm1F (Suc n) l =
     andThen (peek l) (\<lambda>peeked _.
       if tok_type peeked \<in> set [TT_bareAtom, TT_quotedAtom, TT_ident] then
         parseTreeOrVarOrAppF n l
       else if tok_type peeked = TT_string then
         andThen (pop l) (\<lambda>t l1. Ret (StringTerm (getStringText (tok_text t))) l1)
       else if tok_type peeked = TT_lBracket then
         andThen (pop l) (\<lambda>_ l1.
         andThen (parseCommaSepF n (parseTermF n) [TT_rBracket] l1) (\<lambda>elts l2.
         andThen (expect [TT_rBracket] l2) (\<lambda>_ l3.
           Ret (ListTerm elts) l3)))
       else if tok_type peeked = TT_lParen then
         andThen (pop l) (\<lambda>_ l1.
         andThen (parseTermF n l1) (\<lambda>inner l2.
         andThen (expect [TT_rParen] l2) (\<lambda>_ l3.
           Ret inner l3)))
       else if tok_type peeked = TT_matchKw then parseMatchTermF n l
       else Throw (Error ''expected a term''))"
| "parseTreeOrVarOrAppF 0 l = OutOfFuel"
| "parseTreeOrVarOrAppF (Suc n) l =
     andThen (expect [TT_bareAtom, TT_quotedAtom, TT_ident] l) (\<lambda>start l1.
       if hasMore l1 \<and> peekIs [TT_lParen] l1 then
         andThen (pop l1) (\<lambda>_ l2.
         andThen (parseCommaSepF n (parseTermF n) [TT_rParen] l2) (\<lambda>terms l3.
         andThen (expect [TT_rParen] l3) (\<lambda>_ l4.
           Ret (treeOrVarOrApp start terms) l4)))
       else Ret (treeOrVarOrApp start []) l1)"
| "parseMatchTermF 0 l = OutOfFuel"
| "parseMatchTermF (Suc n) l =
     andThen (expect [TT_matchKw] l) (\<lambda>_ l1.
     andThen (parseCommaSepF n (parseTermF n) [TT_lCurly] l1) (\<lambda>terms l2.
     andThen (expect [TT_lCurly] l2) (\<lambda>_ l3.
     andThen (parseCommaSepF n (parseMatchClauseF n) [TT_rCurly] l3) (\<lambda>clauses l4.
     andThen (expect [TT_rCurly] l4) (\<lambda>_ l5.
       Ret (MatchTerm terms clauses) l5)))))"
| "parseMatchClauseF 0 l = OutOfFuel"
| "parseMatchClauseF (Suc n) l =
     andThen (parseCommaSepF n (parsePatternF n) [TT_arrow] l) (\<lambda>pats l1.
     andThen (expect [TT_arrow] l1) (\<lambda>_ l2.
     andThen (parseTermF n l2) (\<lambda>b l3.
       Ret (MatchClause pats b) l3)))"

section \<open>Definitions, items and programs\<close>

fun parseDefF :: "nat \<Rightarrow> Lexer \<Rightarrow> Def outcome" where
  "parseDefF 0 l = OutOfFuel"
| "parseDefF (Suc n) l =
     andThen (expect [TT_letKw] l) (\<lambda>_ l1.
     andThen (expect [TT_ident] l1) (\<lambda>nm l2.
     andThen (if hasMore l2 \<and> peekIs [TT_lParen] l2 then
                andThen (pop l2) (\<lambda>_ l3.
                andThen (parseCommaSepF n (parsePatternF n) [TT_rParen] l3) (\<lambda>pats l4.
                andThen (expect [TT_rParen] l4) (\<lambda>_ l5. Ret pats l5)))
              else Ret [] l2) (\<lambda>pats l6.
     andThen (expect [TT_eq] l6) (\<lambda>_ l7.
     andThen (parseTermF n l7) (\<lambda>b l8.
       Ret \<lparr>name = tok_text nm, patterns = pats, body = b\<rparr> l8)))))"

fun parseItemF :: "nat \<Rightarrow> Lexer \<Rightarrow> Item outcome" where
  "parseItemF 0 l = OutOfFuel"
| "parseItemF (Suc n) l =
     andThen (peek l) (\<lambda>peeked _.
       if tok_type peeked = TT_letKw
       then andThen (parseDefF n l) (\<lambda>d l1. Ret (DefItem d) l1)
       else andThen (parseTermF n l) (\<lambda>t l1. Ret (TermItem t) l1))"

fun parseProgramLoopF :: "nat \<Rightarrow> Item list \<Rightarrow> Lexer \<Rightarrow> Item list outcome" where
  "parseProgramLoopF 0 items l = OutOfFuel"
| "parseProgramLoopF (Suc n) items l =
     (if hasMore l then
        andThen (parseItemF n l) (\<lambda>item l1.
        andThen (expect [TT_semi] l1) (\<lambda>_ l2.
          parseProgramLoopF n (items @ [item]) l2))
      else Ret items l)"


section \<open>The parsers without fuel\<close>

text \<open>
  Every parser is its fuelled version run with \<open>fuel l\<close>, an amount that the theorems
  below show to be enough for the cursor \<open>l\<close>: any larger amount gives the same result,
  and the result is never \<open>OutOfFuel\<close>.
\<close>

definition fuel :: "Lexer \<Rightarrow> nat" where
  "fuel l = 3 * length l + 5"

definition parseCommaSepLoop ::
  "(Lexer \<Rightarrow> 'a outcome) \<Rightarrow> TT list \<Rightarrow> 'a list \<Rightarrow> Lexer \<Rightarrow> 'a list outcome" where
  "parseCommaSepLoop parseElt stopSet elts l = parseCommaSepLoopF (fuel l) parseElt stopSet elts l"

definition parseCommaSep ::
  "(Lexer \<Rightarrow> 'a outcome) \<Rightarrow> TT list \<Rightarrow> Lexer \<Rightarrow> 'a list outcome" where
  "parseCommaSep parseElt stopSet l = parseCommaSepF (fuel l) parseElt stopSet l"

definition parsePattern :: "Lexer \<Rightarrow> Pattern outcome" where
  "parsePattern l = parsePatternF (fuel l) l"

definition parsePatternLoop :: "Pattern \<Rightarrow> Lexer \<Rightarrow> Pattern outcome" where
  "parsePatternLoop pat l = parsePatternLoopF (fuel l) pat l"

definition parsePattern1 :: "Lexer \<Rightarrow> Pattern outcome" where
  "parsePattern1 l = parsePattern1F (fuel l) l"

definition parseTreePattern :: "Lexer \<Rightarrow> Pattern outcome" where
  "parseTreePattern l = parseTreePatternF (fuel l) l"

definition parseVarOrAsPattern :: "Lexer \<Rightarrow> Pattern outcome" where
  "parseVarOrAsPattern l = parseVarOrAsPatternF (fuel l) l"

definition parseTerm :: "Lexer \<Rightarrow> Term outcome" where
  "parseTerm l = parseTermF (fuel l) l"

definition parseTermLoop :: "Term \<Rightarrow> Lexer \<Rightarrow> Term outcome" where
  "parseTermLoop term l = parseTermLoopF (fuel l) term l"

definition parseTerm1 :: "Lexer \<Rightarrow> Term outcome" where
  "parseTerm1 l = parseTerm1F (fuel l) l"

definition parseTreeOrVarOrApp :: "Lexer \<Rightarrow> Term outcome" where
  "parseTreeOrVarOrApp l = parseTreeOrVarOrAppF (fuel l) l"

definition parseMatchTerm :: "Lexer \<Rightarrow> Term outcome" where
  "parseMatchTerm l = parseMatchTermF (fuel l) l"

definition parseMatchClause :: "Lexer \<Rightarrow> MatchClause outcome" where
  "parseMatchClause l = parseMatchClauseF (fuel l) l"

definition parseDef :: "Lexer \<Rightarrow> Def outcome" where
  "parseDef l = parseDefF (fuel l) l"

definition parseItem :: "Lexer \<Rightarrow> Item outcome" where
  "parseItem l = parseItemF (fuel l) l"

definition parseProgramLoop :: "Item list \<Rightarrow> Lexer \<Rightarrow> Item list outcome" where
  "parseProgramLoop items l = parseProgramLoopF (fuel l) items l"

definition parseProgram :: "Lexer \<Rightarrow> Item list outcome" where
  "parseProgram l = parseProgramLoop [] l"

section \<open>Notions for the proofs\<close>

text \<open>
  \<open>upTo r r'\<close>: the result \<open>r\<close> of a run is kept by a run with more fuel.
  \<open>advances l0 m\<close>: what \<open>m\<close> leaves is a suffix of \<open>l0\<close>.
  \<open>finishes m Q\<close>: \<open>m\<close> did not run out of fuel, and \<open>Q\<close> holds of what it returns.
  \<open>shorter l\<close>: the cursor left is not longer than \<open>l\<close>.
  \<open>parser_ok p\<close>: an element parser that always ends and never lengthens the cursor.
  \<open>tok ty tx\<close>: the token of kind \<open>ty\<close> with raw text \<open>tx\<close>.
  \<open>hasEscaped q s\<close>: the text \<open>s\<close> contains a backslash directly followed by \<open>q\<close>.
\<close>

definition upTo :: "'a outcome \<Rightarrow> 'a outcome \<Rightarrow> bool" where
  "upTo r r' = (r = OutOfFuel \<or> r = r')"

definition advances :: "Lexer \<Rightarrow> 'a outcome \<Rightarrow> bool" where
  "advances l0 m = (\<forall>a l'. m = Ret a l' \<longrightarrow> suffix l' l0)"

definition finishes :: "'a outcome \<Rightarrow> ('a \<Rightarrow> Lexer \<Rightarrow> bool) \<Rightarrow> bool" where
  "finishes m Q = (m \<noteq> OutOfFuel \<and> (\<forall>a l'. m = Ret a l' \<longrightarrow> Q a l'))"

definition shorter :: "Lexer \<Rightarrow> 'a \<Rightarrow> Lexer \<Rightarrow> bool" where
  "shorter l a l' = (length l' \<le> length l)"

definition parser_ok :: "(Lexer \<Rightarrow> 'a outcome) \<Rightarrow> bool" where
  "parser_ok p = (\<forall>l. finishes (p l) (shorter l))"

definition tok :: "TT \<Rightarrow> string \<Rightarrow> Token" where
  "tok ty tx = \<lparr>tok_type = ty, tok_text = tx\<rparr>"

fun hasEscaped :: "char \<Rightarrow> string \<Rightarrow> bool" where
  "hasEscaped q (c # d # cs) = ((c = CHR 0x5C \<and> d = q) \<or> hasEscaped q (d # cs))"
| "hasEscaped q cs = False"






section \<open>The cursor and sequencing\<close>

lemma hasMore_simps [simp]: "hasMore [] = False" "hasMore (t # r) = True"
  by (simp_all add: hasMore_def)

lemma peek_simps [simp]: "peek [] = Throw SyntaxError" "peek (t # r) = Ret t (t # r)"
  by (simp_all add: peek_def)

lemma pop_simps [simp]: "pop [] = Throw SyntaxError" "pop (t # r) = Ret t r"
  by (simp_all add: pop_def)

lemma expect_simps [simp]:
  "expect tys [] = Throw SyntaxError"
  "expect tys (t # r) = (if tok_type t \<in> set tys then Ret t r else Throw SyntaxError)"
  by (simp_all add: expect_def)

lemma peekIs_simps [simp]: "peekIs tys [] = False" "peekIs tys (t # r) = (tok_type t \<in> set tys)"
  by (simp_all add: peekIs_def)

lemma andThen_simps [simp]:
  "andThen OutOfFuel k = OutOfFuel"
  "andThen (Throw e) k = Throw e"
  "andThen (Ret a l) k = k a l"
  by (simp_all add: andThen_def)

section \<open>More fuel keeps the result\<close>

lemma upTo_refl [simp, intro!]: "upTo r r"
  by (simp add: upTo_def)

lemma upTo_OutOfFuel [simp, intro!]: "upTo OutOfFuel r"
  by (simp add: upTo_def)

lemma upTo_andThen [intro!]:
  assumes "upTo m m'" and "\<And>a l. upTo (k a l) (k' a l)"
  shows "upTo (andThen m k) (andThen m' k')"
proof (cases m)
  case (Ret a l)
  with assms(1) have "m' = Ret a l" by (simp add: upTo_def)
  with Ret assms(2) [of a l] show ?thesis by simp
next
  case (Throw e)
  with assms(1) have "m' = Throw e" by (simp add: upTo_def)
  with Throw show ?thesis by simp
qed simp

lemma upTo_if [intro!]:
  assumes "c \<Longrightarrow> upTo a a'" and "\<not> c \<Longrightarrow> upTo b b'"
  shows "upTo (if c then a else b) (if c then a' else b')"
  using assms by simp

lemma upTo_parseCommaSepLoopF:
  assumes "\<And>l. upTo (p l) (p' l)"
  shows "upTo (parseCommaSepLoopF n p stop elts l) (parseCommaSepLoopF (Suc n) p' stop elts l)"
proof (induction n arbitrary: elts l)
  case 0
  show ?case by simp
next
  case (Suc n)
  show ?case
    apply (subst parseCommaSepLoopF.simps(2))
    apply (subst parseCommaSepLoopF.simps(2))
    apply (intro upTo_if upTo_andThen upTo_refl assms Suc.IH)
    done
qed

lemma upTo_parseCommaSepF [intro!]:
  assumes "\<And>l. upTo (p l) (p' l)"
  shows "upTo (parseCommaSepF n p stop l) (parseCommaSepF (Suc n) p' stop l)"
proof (cases n)
  case 0
  then show ?thesis by simp
next
  case (Suc m)
  show ?thesis unfolding Suc
    apply (subst parseCommaSepF.simps(2))
    apply (subst parseCommaSepF.simps(2))
    apply (intro upTo_if upTo_andThen upTo_refl assms upTo_parseCommaSepLoopF)
    done
qed

lemma upTo_pattern:
  "(\<forall>l. upTo (parsePatternF n l) (parsePatternF (Suc n) l)) \<and>
   (\<forall>pat l. upTo (parsePatternLoopF n pat l) (parsePatternLoopF (Suc n) pat l)) \<and>
   (\<forall>l. upTo (parsePattern1F n l) (parsePattern1F (Suc n) l)) \<and>
   (\<forall>l. upTo (parseTreePatternF n l) (parseTreePatternF (Suc n) l)) \<and>
   (\<forall>l. upTo (parseVarOrAsPatternF n l) (parseVarOrAsPatternF (Suc n) l))"
proof (induction n)
  case 0
  show ?case by simp
next
  case (Suc n)
  then have IH:
    "\<And>l. upTo (parsePatternF n l) (parsePatternF (Suc n) l)"
    "\<And>pat l. upTo (parsePatternLoopF n pat l) (parsePatternLoopF (Suc n) pat l)"
    "\<And>l. upTo (parsePattern1F n l) (parsePattern1F (Suc n) l)"
    "\<And>l. upTo (parseTreePatternF n l) (parseTreePatternF (Suc n) l)"
    "\<And>l. upTo (parseVarOrAsPatternF n l) (parseVarOrAsPatternF (Suc n) l)"
    by blast+
  have 1: "upTo (parsePatternF (Suc n) l) (parsePatternF (Suc (Suc n)) l)" for l
    apply (subst parsePatternF.simps(2))
    apply (subst parsePatternF.simps(2))
    apply (intro upTo_if upTo_andThen upTo_refl upTo_parseCommaSepF IH)
    done
  have 2: "upTo (parsePatternLoopF (Suc n) pat l) (parsePatternLoopF (Suc (Suc n)) pat l)" for pat l
    apply (subst parsePatternLoopF.simps(2))
    apply (subst parsePatternLoopF.simps(2))
    apply (intro upTo_if upTo_andThen upTo_refl upTo_parseCommaSepF IH)
    done
  have 3: "upTo (parsePattern1F (Suc n) l) (parsePattern1F (Suc (Suc n)) l)" for l
    apply (subst parsePattern1F.simps(2))
    apply (subst parsePattern1F.simps(2))
    apply (intro upTo_if upTo_andThen upTo_refl upTo_parseCommaSepF IH)
    done
  have 4: "upTo (parseTreePatternF (Suc n) l) (parseTreePatternF (Suc (Suc n)) l)" for l
    apply (subst parseTreePatternF.simps(2))
    apply (subst parseTreePatternF.simps(2))
    apply (intro upTo_if upTo_andThen upTo_refl upTo_parseCommaSepF IH)
    done
  have 5: "upTo (parseVarOrAsPatternF (Suc n) l) (parseVarOrAsPatternF (Suc (Suc n)) l)" for l
    apply (subst parseVarOrAsPatternF.simps(2))
    apply (subst parseVarOrAsPatternF.simps(2))
    apply (intro upTo_if upTo_andThen upTo_refl upTo_parseCommaSepF IH)
    done
  from 1 2 3 4 5 show ?case by blast
qed

lemma upTo_term:
  "(\<forall>l. upTo (parseTermF n l) (parseTermF (Suc n) l)) \<and>
   (\<forall>t l. upTo (parseTermLoopF n t l) (parseTermLoopF (Suc n) t l)) \<and>
   (\<forall>l. upTo (parseTerm1F n l) (parseTerm1F (Suc n) l)) \<and>
   (\<forall>l. upTo (parseTreeOrVarOrAppF n l) (parseTreeOrVarOrAppF (Suc n) l)) \<and>
   (\<forall>l. upTo (parseMatchTermF n l) (parseMatchTermF (Suc n) l)) \<and>
   (\<forall>l. upTo (parseMatchClauseF n l) (parseMatchClauseF (Suc n) l))"
proof (induction n)
  case 0
  show ?case by simp
next
  case (Suc n)
  then have IH:
    "\<And>l. upTo (parseTermF n l) (parseTermF (Suc n) l)"
    "\<And>t l. upTo (parseTermLoopF n t l) (parseTermLoopF (Suc n) t l)"
    "\<And>l. upTo (parseTerm1F n l) (parseTerm1F (Suc n) l)"
    "\<And>l. upTo (parseTreeOrVarOrAppF n l) (parseTreeOrVarOrAppF (Suc n) l)"
    "\<And>l. upTo (parseMatchTermF n l) (parseMatchTermF (Suc n) l)"
    "\<And>l. upTo (parseMatchClauseF n l) (parseMatchClauseF (Suc n) l)"
    by blast+
  note P = upTo_pattern [of n, THEN conjunct1, rule_format]
  have 1: "upTo (parseTermF (Suc n) l) (parseTermF (Suc (Suc n)) l)" for l
    apply (subst parseTermF.simps(2))
    apply (subst parseTermF.simps(2))
    apply (intro upTo_if upTo_andThen upTo_refl upTo_parseCommaSepF IH P)
    done
  have 2: "upTo (parseTermLoopF (Suc n) t l) (parseTermLoopF (Suc (Suc n)) t l)" for t l
    apply (subst parseTermLoopF.simps(2))
    apply (subst parseTermLoopF.simps(2))
    apply (intro upTo_if upTo_andThen upTo_refl upTo_parseCommaSepF IH P)
    done
  have 3: "upTo (parseTerm1F (Suc n) l) (parseTerm1F (Suc (Suc n)) l)" for l
    apply (subst parseTerm1F.simps(2))
    apply (subst parseTerm1F.simps(2))
    apply (intro upTo_if upTo_andThen upTo_refl upTo_parseCommaSepF IH P)
    done
  have 4: "upTo (parseTreeOrVarOrAppF (Suc n) l) (parseTreeOrVarOrAppF (Suc (Suc n)) l)" for l
    apply (subst parseTreeOrVarOrAppF.simps(2))
    apply (subst parseTreeOrVarOrAppF.simps(2))
    apply (intro upTo_if upTo_andThen upTo_refl upTo_parseCommaSepF IH P)
    done
  have 5: "upTo (parseMatchTermF (Suc n) l) (parseMatchTermF (Suc (Suc n)) l)" for l
    apply (subst parseMatchTermF.simps(2))
    apply (subst parseMatchTermF.simps(2))
    apply (intro upTo_if upTo_andThen upTo_refl upTo_parseCommaSepF IH P)
    done
  have 6: "upTo (parseMatchClauseF (Suc n) l) (parseMatchClauseF (Suc (Suc n)) l)" for l
    apply (subst parseMatchClauseF.simps(2))
    apply (subst parseMatchClauseF.simps(2))
    apply (intro upTo_if upTo_andThen upTo_refl upTo_parseCommaSepF IH P)
    done
  from 1 2 3 4 5 6 show ?case by blast
qed

lemma upTo_parseDefF: "upTo (parseDefF n l) (parseDefF (Suc n) l)"
proof (cases n)
  case 0
  then show ?thesis by simp
next
  case (Suc m)
  note P = upTo_pattern [of m, THEN conjunct1, rule_format]
  note T = upTo_term [of m, THEN conjunct1, rule_format]
  show ?thesis unfolding Suc
    apply (subst parseDefF.simps(2))
    apply (subst parseDefF.simps(2))
    apply (intro upTo_if upTo_andThen upTo_refl upTo_parseCommaSepF P T)
    done
qed

lemma upTo_parseItemF: "upTo (parseItemF n l) (parseItemF (Suc n) l)"
proof (cases n)
  case 0
  then show ?thesis by simp
next
  case (Suc m)
  note T = upTo_term [of m, THEN conjunct1, rule_format]
  show ?thesis unfolding Suc
    apply (subst parseItemF.simps(2))
    apply (subst parseItemF.simps(2))
    apply (intro upTo_if upTo_andThen upTo_refl upTo_parseDefF T)
    done
qed

lemma upTo_parseProgramLoopF:
  "upTo (parseProgramLoopF n items l) (parseProgramLoopF (Suc n) items l)"
proof (induction n arbitrary: items l)
  case 0
  show ?case by simp
next
  case (Suc n)
  show ?case
    apply (subst parseProgramLoopF.simps(2))
    apply (subst parseProgramLoopF.simps(2))
    apply (intro upTo_if upTo_andThen upTo_refl upTo_parseItemF Suc.IH)
    done
qed

text \<open>From one more unit of fuel to any larger amount.\<close>

lemma upTo_le:
  assumes step: "\<And>n. upTo (f n) (f (Suc n))" and le: "n \<le> m" and ret: "f n \<noteq> OutOfFuel"
  shows "f m = f n"
  using le
proof (induction m)
  case 0
  then show ?case by simp
next
  case (Suc m)
  show ?case
  proof (cases "n = Suc m")
    case True
    then show ?thesis by simp
  next
    case False
    with Suc have eq: "f m = f n" by simp
    with ret step [of m] show ?thesis by (simp add: upTo_def)
  qed
qed

section \<open>A call leaves a suffix of its input\<close>

lemma advances_Ret: "suffix l' l0 \<Longrightarrow> advances l0 (Ret a l')"
  by (simp add: advances_def)

lemma advances_Throw: "advances l0 (Throw e)"
  by (simp add: advances_def)

lemma advances_OutOfFuel: "advances l0 OutOfFuel"
  by (simp add: advances_def)

lemma advances_if:
  "(c \<Longrightarrow> advances l0 a) \<Longrightarrow> (\<not> c \<Longrightarrow> advances l0 b) \<Longrightarrow> advances l0 (if c then a else b)"
  by simp

lemma advances_andThen:
  assumes "advances l0 m" and "\<And>a l1. suffix l1 l0 \<Longrightarrow> advances l0 (k a l1)"
  shows "advances l0 (andThen m k)"
  using assms by (cases m) (simp_all add: advances_def)

lemma advances_expect: "suffix l l0 \<Longrightarrow> advances l0 (expect tys l)"
  by (cases l) (auto simp: advances_def dest: suffix_ConsD)

lemma advances_pop: "suffix l l0 \<Longrightarrow> advances l0 (pop l)"
  by (cases l) (auto simp: advances_def dest: suffix_ConsD)

lemma advances_peek: "suffix l l0 \<Longrightarrow> advances l0 (peek l)"
  by (cases l) (auto simp: advances_def)

lemmas advances_intros =
  advances_Ret advances_Throw advances_OutOfFuel advances_if advances_andThen
  advances_expect advances_pop advances_peek

lemma advances_parseCommaSepLoopF:
  assumes p: "\<And>l1. suffix l1 l0 \<Longrightarrow> advances l0 (p l1)"
  shows "suffix l l0 \<Longrightarrow> advances l0 (parseCommaSepLoopF n p stop elts l)"
proof (induction n arbitrary: elts l)
  case 0
  show ?case by (simp add: advances_OutOfFuel)
next
  case (Suc n)
  show ?case
    apply (subst parseCommaSepLoopF.simps(2))
    apply (intro advances_intros p Suc.IH Suc.prems; assumption)
    done
qed

lemma advances_parseCommaSepF:
  assumes p: "\<And>l1. suffix l1 l0 \<Longrightarrow> advances l0 (p l1)"
  shows "suffix l l0 \<Longrightarrow> advances l0 (parseCommaSepF n p stop l)"
proof (cases n)
  case 0
  then show ?thesis by (simp add: advances_OutOfFuel)
next
  case (Suc m)
  assume "suffix l l0"
  then show ?thesis unfolding Suc
    apply (subst parseCommaSepF.simps(2))
    apply (intro advances_intros p advances_parseCommaSepLoopF; assumption)
    done
qed

lemma advances_pattern:
  "(\<forall>l l0. suffix l l0 \<longrightarrow> advances l0 (parsePatternF n l)) \<and>
   (\<forall>pat l l0. suffix l l0 \<longrightarrow> advances l0 (parsePatternLoopF n pat l)) \<and>
   (\<forall>l l0. suffix l l0 \<longrightarrow> advances l0 (parsePattern1F n l)) \<and>
   (\<forall>l l0. suffix l l0 \<longrightarrow> advances l0 (parseTreePatternF n l)) \<and>
   (\<forall>l l0. suffix l l0 \<longrightarrow> advances l0 (parseVarOrAsPatternF n l))"
proof (induction n)
  case 0
  show ?case by (simp add: advances_OutOfFuel)
next
  case (Suc n)
  then have IH:
    "\<And>l l0. suffix l l0 \<Longrightarrow> advances l0 (parsePatternF n l)"
    "\<And>pat l l0. suffix l l0 \<Longrightarrow> advances l0 (parsePatternLoopF n pat l)"
    "\<And>l l0. suffix l l0 \<Longrightarrow> advances l0 (parsePattern1F n l)"
    "\<And>l l0. suffix l l0 \<Longrightarrow> advances l0 (parseTreePatternF n l)"
    "\<And>l l0. suffix l l0 \<Longrightarrow> advances l0 (parseVarOrAsPatternF n l)"
    by blast+
  note rules = advances_intros advances_parseCommaSepF IH
  have 1: "advances l0 (parsePatternF (Suc n) l)" if "suffix l l0" for l l0
    using that
    apply (subst parsePatternF.simps(2))
    apply (intro rules; assumption)
    done
  have 2: "advances l0 (parsePatternLoopF (Suc n) pat l)" if "suffix l l0" for pat l l0
    using that
    apply (subst parsePatternLoopF.simps(2))
    apply (intro rules; assumption)
    done
  have 3: "advances l0 (parsePattern1F (Suc n) l)" if "suffix l l0" for l l0
    using that
    apply (subst parsePattern1F.simps(2))
    apply (intro rules; assumption)
    done
  have 4: "advances l0 (parseTreePatternF (Suc n) l)" if "suffix l l0" for l l0
    using that
    apply (subst parseTreePatternF.simps(2))
    apply (intro rules; assumption)
    done
  have 5: "advances l0 (parseVarOrAsPatternF (Suc n) l)" if "suffix l l0" for l l0
    using that
    apply (subst parseVarOrAsPatternF.simps(2))
    apply (intro rules; assumption)
    done
  from 1 2 3 4 5 show ?case by blast
qed

lemma advances_term:
  "(\<forall>l l0. suffix l l0 \<longrightarrow> advances l0 (parseTermF n l)) \<and>
   (\<forall>t l l0. suffix l l0 \<longrightarrow> advances l0 (parseTermLoopF n t l)) \<and>
   (\<forall>l l0. suffix l l0 \<longrightarrow> advances l0 (parseTerm1F n l)) \<and>
   (\<forall>l l0. suffix l l0 \<longrightarrow> advances l0 (parseTreeOrVarOrAppF n l)) \<and>
   (\<forall>l l0. suffix l l0 \<longrightarrow> advances l0 (parseMatchTermF n l)) \<and>
   (\<forall>l l0. suffix l l0 \<longrightarrow> advances l0 (parseMatchClauseF n l))"
proof (induction n)
  case 0
  show ?case by (simp add: advances_OutOfFuel)
next
  case (Suc n)
  then have IH:
    "\<And>l l0. suffix l l0 \<Longrightarrow> advances l0 (parseTermF n l)"
    "\<And>t l l0. suffix l l0 \<Longrightarrow> advances l0 (parseTermLoopF n t l)"
    "\<And>l l0. suffix l l0 \<Longrightarrow> advances l0 (parseTerm1F n l)"
    "\<And>l l0. suffix l l0 \<Longrightarrow> advances l0 (parseTreeOrVarOrAppF n l)"
    "\<And>l l0. suffix l l0 \<Longrightarrow> advances l0 (parseMatchTermF n l)"
    "\<And>l l0. suffix l l0 \<Longrightarrow> advances l0 (parseMatchClauseF n l)"
    by blast+
  note P = advances_pattern [of n, THEN conjunct1, rule_format]
  note rules = advances_intros advances_parseCommaSepF IH P
  have 1: "advances l0 (parseTermF (Suc n) l)" if "suffix l l0" for l l0
    using that
    apply (subst parseTermF.simps(2))
    apply (intro rules; assumption)
    done
  have 2: "advances l0 (parseTermLoopF (Suc n) t l)" if "suffix l l0" for t l l0
    using that
    apply (subst parseTermLoopF.simps(2))
    apply (intro rules; assumption)
    done
  have 3: "advances l0 (parseTerm1F (Suc n) l)" if "suffix l l0" for l l0
    using that
    apply (subst parseTerm1F.simps(2))
    apply (intro rules; assumption)
    done
  have 4: "advances l0 (parseTreeOrVarOrAppF (Suc n) l)" if "suffix l l0" for l l0
    using that
    apply (subst parseTreeOrVarOrAppF.simps(2))
    apply (intro rules; assumption)
    done
  have 5: "advances l0 (parseMatchTermF (Suc n) l)" if "suffix l l0" for l l0
    using that
    apply (subst parseMatchTermF.simps(2))
    apply (intro rules; assumption)
    done
  have 6: "advances l0 (parseMatchClauseF (Suc n) l)" if "suffix l l0" for l l0
    using that
    apply (subst parseMatchClauseF.simps(2))
    apply (intro rules; assumption)
    done
  from 1 2 3 4 5 6 show ?case by blast
qed

lemmas advances_parsePatternF = advances_pattern [THEN conjunct1, rule_format]
lemmas advances_parseTermF = advances_term [THEN conjunct1, rule_format]

lemma advances_parseDefF: "suffix l l0 \<Longrightarrow> advances l0 (parseDefF n l)"
proof (cases n)
  case 0
  then show ?thesis by (simp add: advances_OutOfFuel)
next
  case (Suc m)
  assume "suffix l l0"
  then show ?thesis unfolding Suc
    apply (subst parseDefF.simps(2))
    apply (intro advances_intros advances_parseCommaSepF advances_parsePatternF
        advances_parseTermF; assumption)
    done
qed

lemma advances_parseItemF: "suffix l l0 \<Longrightarrow> advances l0 (parseItemF n l)"
proof (cases n)
  case 0
  then show ?thesis by (simp add: advances_OutOfFuel)
next
  case (Suc m)
  assume "suffix l l0"
  then show ?thesis unfolding Suc
    apply (subst parseItemF.simps(2))
    apply (intro advances_intros advances_parseDefF advances_parseTermF; assumption)
    done
qed

text \<open>The length form, for the fuel bounds.\<close>

lemma advances_length: "advances l m \<Longrightarrow> m = Ret a l' \<Longrightarrow> length l' \<le> length l"
  by (auto simp: advances_def dest: suffix_length_le)

section \<open>Enough fuel\<close>

lemma finishes_Ret: "Q a l \<Longrightarrow> finishes (Ret a l) Q"
  by (simp add: finishes_def)

lemma finishes_Throw: "finishes (Throw e) Q"
  by (simp add: finishes_def)

lemma finishes_if:
  "(c \<Longrightarrow> finishes a Q) \<Longrightarrow> (\<not> c \<Longrightarrow> finishes b Q) \<Longrightarrow> finishes (if c then a else b) Q"
  by simp

lemma finishes_andThen:
  assumes "finishes m Q" and "\<And>a l1. Q a l1 \<Longrightarrow> finishes (k a l1) R"
  shows "finishes (andThen m k) R"
  using assms by (cases m) (simp_all add: finishes_def)

lemma finishes_expect: "finishes (expect tys l) (\<lambda>t l1. l = t # l1)"
  by (cases l) (simp_all add: finishes_def)

lemma finishes_pop: "finishes (pop l) (\<lambda>t l1. l = t # l1)"
  by (cases l) (simp_all add: finishes_def)

lemma finishes_peek: "finishes (peek l) (\<lambda>t l1. l1 = l \<and> l \<noteq> [])"
  by (cases l) (simp_all add: finishes_def)

lemmas finishes_intros =
  finishes_Ret finishes_Throw finishes_if finishes_andThen
  finishes_expect finishes_pop finishes_peek

lemma finishes_parseCommaSepLoopF:
  assumes p: "\<And>l1. length l1 \<le> length l \<Longrightarrow> finishes (p l1) (shorter l1)"
  shows "length l \<le> length l0 \<Longrightarrow> length l < n \<Longrightarrow>
    finishes (parseCommaSepLoopF n p stop elts l) (shorter l0)"
  using p
proof (induction n arbitrary: elts l)
  case 0
  then show ?case by simp
next
  case (Suc n)
  note p' = Suc.prems(3)
  show ?case
    apply (subst parseCommaSepLoopF.simps(2))
    apply (insert Suc.prems(1,2))
    apply (rule finishes_intros p' Suc.IH | (simp add: shorter_def; fail))+
    done
qed

lemma finishes_shorter:
  "finishes m (shorter l) \<Longrightarrow> length l \<le> length l0 \<Longrightarrow> finishes m (shorter l0)"
  by (auto simp: finishes_def shorter_def)

lemma finishes_parseCommaSepF:
  assumes p: "\<And>l1. length l1 \<le> length l \<Longrightarrow> finishes (p l1) (shorter l1)"
    and n: "length l + 1 < n"
  shows "finishes (parseCommaSepF n p stop l) (shorter l)"
proof (cases n)
  case 0
  with n show ?thesis by simp
next
  case (Suc m)
  have loop: "finishes (parseCommaSepLoopF m p stop elts l1) (shorter l)"
    if "length l1 \<le> length l" for elts l1
  proof (rule finishes_parseCommaSepLoopF)
    show "finishes (p l2) (shorter l2)" if "length l2 \<le> length l1" for l2
      using that \<open>length l1 \<le> length l\<close> by (intro p) simp
    show "length l1 \<le> length l" by fact
    show "length l1 < m" using that n Suc by simp
  qed
  show ?thesis unfolding Suc
    apply (subst parseCommaSepF.simps(2))
    apply (rule finishes_intros p loop | (simp add: shorter_def; fail))+
    done
qed

lemma finishes_pattern:
  "(\<forall>l. 3 * length l + 3 \<le> n \<longrightarrow> finishes (parsePatternF n l) (shorter l)) \<and>
   (\<forall>pat l. 3 * length l + 1 \<le> n \<longrightarrow> finishes (parsePatternLoopF n pat l) (shorter l)) \<and>
   (\<forall>l. 3 * length l + 2 \<le> n \<longrightarrow> finishes (parsePattern1F n l) (shorter l)) \<and>
   (\<forall>l. 3 * length l + 1 \<le> n \<longrightarrow> finishes (parseTreePatternF n l) (shorter l)) \<and>
   (\<forall>l. 3 * length l + 1 \<le> n \<longrightarrow> finishes (parseVarOrAsPatternF n l) (shorter l))"
proof (induction n)
  case 0
  show ?case by simp
next
  case (Suc n)
  then have IH:
    "\<And>l. 3 * length l + 3 \<le> n \<Longrightarrow> finishes (parsePatternF n l) (shorter l)"
    "\<And>pat l. 3 * length l + 1 \<le> n \<Longrightarrow> finishes (parsePatternLoopF n pat l) (shorter l)"
    "\<And>l. 3 * length l + 2 \<le> n \<Longrightarrow> finishes (parsePattern1F n l) (shorter l)"
    "\<And>l. 3 * length l + 1 \<le> n \<Longrightarrow> finishes (parseTreePatternF n l) (shorter l)"
    "\<And>l. 3 * length l + 1 \<le> n \<Longrightarrow> finishes (parseVarOrAsPatternF n l) (shorter l)"
    by blast+
  note rules = finishes_intros finishes_parseCommaSepF IH IH [THEN finishes_shorter]
  have 1: "finishes (parsePatternF (Suc n) l) (shorter l)" if "3 * length l + 3 \<le> Suc n" for l
    apply (insert that)
    apply (subst parsePatternF.simps(2))
    apply (rule rules | (simp add: shorter_def; fail))+
    done
  have 2: "finishes (parsePatternLoopF (Suc n) pat l) (shorter l)"
    if "3 * length l + 1 \<le> Suc n" for pat l
    apply (insert that)
    apply (subst parsePatternLoopF.simps(2))
    apply (rule rules | (simp add: shorter_def; fail))+
    done
  have 3: "finishes (parsePattern1F (Suc n) l) (shorter l)" if "3 * length l + 2 \<le> Suc n" for l
    apply (insert that)
    apply (subst parsePattern1F.simps(2))
    apply (rule rules | (simp add: shorter_def; fail))+
    done
  have 4: "finishes (parseTreePatternF (Suc n) l) (shorter l)"
    if "3 * length l + 1 \<le> Suc n" for l
    apply (insert that)
    apply (subst parseTreePatternF.simps(2))
    apply (rule rules | (simp add: shorter_def; fail))+
    done
  have 5: "finishes (parseVarOrAsPatternF (Suc n) l) (shorter l)"
    if "3 * length l + 1 \<le> Suc n" for l
    apply (insert that)
    apply (subst parseVarOrAsPatternF.simps(2))
    apply (rule rules | (simp add: shorter_def; fail))+
    done
  from 1 2 3 4 5 show ?case by blast
qed

lemmas finishes_parsePatternF = finishes_pattern [THEN conjunct1, rule_format]

lemma finishes_term:
  "(\<forall>l. 3 * length l + 3 \<le> n \<longrightarrow> finishes (parseTermF n l) (shorter l)) \<and>
   (\<forall>t l. 3 * length l + 1 \<le> n \<longrightarrow> finishes (parseTermLoopF n t l) (shorter l)) \<and>
   (\<forall>l. 3 * length l + 2 \<le> n \<longrightarrow> finishes (parseTerm1F n l) (shorter l)) \<and>
   (\<forall>l. 3 * length l + 1 \<le> n \<longrightarrow> finishes (parseTreeOrVarOrAppF n l) (shorter l)) \<and>
   (\<forall>l. 3 * length l + 1 \<le> n \<longrightarrow> finishes (parseMatchTermF n l) (shorter l)) \<and>
   (\<forall>l. 3 * length l + 4 \<le> n \<longrightarrow> finishes (parseMatchClauseF n l) (shorter l))"
proof (induction n)
  case 0
  show ?case by (intro conjI allI impI; simp)
next
  case (Suc n)
  note IH =
    Suc.IH [THEN conjunct1, rule_format]
    Suc.IH [THEN conjunct2, THEN conjunct1, rule_format]
    Suc.IH [THEN conjunct2, THEN conjunct2, THEN conjunct1, rule_format]
    Suc.IH [THEN conjunct2, THEN conjunct2, THEN conjunct2, THEN conjunct1, rule_format]
    Suc.IH [THEN conjunct2, THEN conjunct2, THEN conjunct2, THEN conjunct2, THEN conjunct1,
      rule_format]
    Suc.IH [THEN conjunct2, THEN conjunct2, THEN conjunct2, THEN conjunct2, THEN conjunct2,
      rule_format]
  note rules = finishes_intros finishes_parseCommaSepF IH finishes_parsePatternF
    IH [THEN finishes_shorter]
  have 1: "finishes (parseTermF (Suc n) l) (shorter l)"
    if "3 * length l + 3 \<le> Suc n" for l
    apply (insert that)
    apply (subst parseTermF.simps(2))
    apply (rule rules | (simp add: shorter_def; fail))+
    done
  have 2: "finishes (parseTermLoopF (Suc n) t l) (shorter l)"
    if "3 * length l + 1 \<le> Suc n" for t l
    apply (insert that)
    apply (subst parseTermLoopF.simps(2))
    apply (rule rules | (simp add: shorter_def; fail))+
    done
  have 3: "finishes (parseTerm1F (Suc n) l) (shorter l)"
    if "3 * length l + 2 \<le> Suc n" for l
    apply (insert that)
    apply (subst parseTerm1F.simps(2))
    apply (rule rules | (simp add: shorter_def; fail))+
    done
  have 4: "finishes (parseTreeOrVarOrAppF (Suc n) l) (shorter l)"
    if "3 * length l + 1 \<le> Suc n" for l
    apply (insert that)
    apply (subst parseTreeOrVarOrAppF.simps(2))
    apply (rule rules | (simp add: shorter_def; fail))+
    done
  have 5: "finishes (parseMatchTermF (Suc n) l) (shorter l)"
    if "3 * length l + 1 \<le> Suc n" for l
    apply (insert that)
    apply (subst parseMatchTermF.simps(2))
    apply (rule rules | (simp add: shorter_def; fail))+
    done
  have 6: "finishes (parseMatchClauseF (Suc n) l) (shorter l)"
    if "3 * length l + 4 \<le> Suc n" for l
    apply (insert that)
    apply (subst parseMatchClauseF.simps(2))
    apply (rule rules | (simp add: shorter_def; fail))+
    done
  show ?case by (intro conjI allI impI; erule 1 2 3 4 5 6)
qed

lemmas finishes_parseTermF = finishes_term [THEN conjunct1, rule_format]

lemma finishes_parseDefF:
  assumes "3 * length l + 1 \<le> n"
  shows "finishes (parseDefF n l) (shorter l)"
proof (cases n)
  case 0
  with assms show ?thesis by simp
next
  case (Suc m)
  note rules = finishes_intros finishes_parseCommaSepF finishes_parsePatternF
    finishes_parseTermF finishes_parseTermF [THEN finishes_shorter]
  show ?thesis unfolding Suc
    apply (insert assms [unfolded Suc])
    apply (subst parseDefF.simps(2))
    apply (rule finishes_andThen, rule finishes_expect)
    apply (rule finishes_andThen, rule finishes_expect)
    apply (rule finishes_andThen [where Q = "\<lambda>_ l'. length l' + 2 \<le> length l"])
     apply (rule rules | (simp add: shorter_def; fail))+
    done
qed

lemma finishes_parseItemF:
  assumes "3 * length l + 4 \<le> n"
  shows "finishes (parseItemF n l) (shorter l)"
proof (cases n)
  case 0
  with assms show ?thesis by simp
next
  case (Suc m)
  note rules = finishes_intros finishes_parseDefF finishes_parseTermF
  show ?thesis unfolding Suc
    apply (insert assms [unfolded Suc])
    apply (subst parseItemF.simps(2))
    apply (rule rules | (simp add: shorter_def; fail))+
    done
qed

lemma finishes_parseProgramLoopF:
  "3 * length l + 5 \<le> n \<Longrightarrow> length l \<le> length l0 \<Longrightarrow>
   finishes (parseProgramLoopF n items l) (shorter l0)"
proof (induction n arbitrary: items l)
  case 0
  then show ?case by simp
next
  case (Suc n)
  note rules = finishes_intros finishes_parseItemF Suc.IH
  show ?case
    apply (insert Suc.prems)
    apply (subst parseProgramLoopF.simps(2))
    apply (rule rules | (simp add: shorter_def; fail))+
    done
qed

section \<open>Independence of the fuel\<close>

text \<open>Any two amounts of fuel above the bound give the same result.\<close>

lemma fuel_indep:
  assumes step: "\<And>n. upTo (f n) (f (Suc n))"
    and fin: "f b \<noteq> OutOfFuel" and n: "b \<le> n" and m: "b \<le> m"
  shows "f n = f m"
  using upTo_le [of f b n, OF step n fin] upTo_le [of f b m, OF step m fin] by simp

lemmas upTo_parsePatternF = upTo_pattern [THEN conjunct1, rule_format]
lemmas upTo_parsePatternLoopF = upTo_pattern [THEN conjunct2, THEN conjunct1, rule_format]
lemmas upTo_parsePattern1F =
  upTo_pattern [THEN conjunct2, THEN conjunct2, THEN conjunct1, rule_format]
lemmas upTo_parseTreePatternF =
  upTo_pattern [THEN conjunct2, THEN conjunct2, THEN conjunct2, THEN conjunct1, rule_format]
lemmas upTo_parseVarOrAsPatternF =
  upTo_pattern [THEN conjunct2, THEN conjunct2, THEN conjunct2, THEN conjunct2, rule_format]

lemmas finishes_parsePatternLoopF = finishes_pattern [THEN conjunct2, THEN conjunct1, rule_format]
lemmas finishes_parsePattern1F =
  finishes_pattern [THEN conjunct2, THEN conjunct2, THEN conjunct1, rule_format]
lemmas finishes_parseTreePatternF =
  finishes_pattern [THEN conjunct2, THEN conjunct2, THEN conjunct2, THEN conjunct1, rule_format]
lemmas finishes_parseVarOrAsPatternF =
  finishes_pattern [THEN conjunct2, THEN conjunct2, THEN conjunct2, THEN conjunct2, rule_format]

lemmas upTo_parseTermF = upTo_term [THEN conjunct1, rule_format]
lemmas upTo_parseTermLoopF = upTo_term [THEN conjunct2, THEN conjunct1, rule_format]
lemmas upTo_parseTerm1F = upTo_term [THEN conjunct2, THEN conjunct2, THEN conjunct1, rule_format]
lemmas upTo_parseTreeOrVarOrAppF =
  upTo_term [THEN conjunct2, THEN conjunct2, THEN conjunct2, THEN conjunct1, rule_format]
lemmas upTo_parseMatchTermF =
  upTo_term [THEN conjunct2, THEN conjunct2, THEN conjunct2, THEN conjunct2, THEN conjunct1,
    rule_format]
lemmas upTo_parseMatchClauseF =
  upTo_term [THEN conjunct2, THEN conjunct2, THEN conjunct2, THEN conjunct2, THEN conjunct2,
    rule_format]

lemmas finishes_parseTermLoopF = finishes_term [THEN conjunct2, THEN conjunct1, rule_format]
lemmas finishes_parseTerm1F =
  finishes_term [THEN conjunct2, THEN conjunct2, THEN conjunct1, rule_format]
lemmas finishes_parseTreeOrVarOrAppF =
  finishes_term [THEN conjunct2, THEN conjunct2, THEN conjunct2, THEN conjunct1, rule_format]
lemmas finishes_parseMatchTermF =
  finishes_term [THEN conjunct2, THEN conjunct2, THEN conjunct2, THEN conjunct2, THEN conjunct1,
    rule_format]
lemmas finishes_parseMatchClauseF =
  finishes_term [THEN conjunct2, THEN conjunct2, THEN conjunct2, THEN conjunct2, THEN conjunct2,
    rule_format]

lemma finishesD: "finishes m Q \<Longrightarrow> m \<noteq> OutOfFuel"
  by (simp add: finishes_def)

lemma parsePatternF_fuel: "3 * length l + 3 \<le> n \<Longrightarrow> parsePatternF n l = parsePattern l"
  unfolding parsePattern_def
  by (rule fuel_indep [where f = "\<lambda>n. parsePatternF n l" and b = "3 * length l + 3"],
      rule upTo_parsePatternF, rule finishes_parsePatternF [THEN finishesD], simp, assumption,
      simp add: fuel_def)

lemma parsePatternLoopF_fuel:
  "3 * length l + 1 \<le> n \<Longrightarrow> parsePatternLoopF n pat l = parsePatternLoop pat l"
  unfolding parsePatternLoop_def
  by (rule fuel_indep [where f = "\<lambda>n. parsePatternLoopF n pat l" and b = "3 * length l + 1"],
      rule upTo_parsePatternLoopF, rule finishes_parsePatternLoopF [THEN finishesD], simp, assumption,
      simp add: fuel_def)

lemma parsePattern1F_fuel: "3 * length l + 2 \<le> n \<Longrightarrow> parsePattern1F n l = parsePattern1 l"
  unfolding parsePattern1_def
  by (rule fuel_indep [where f = "\<lambda>n. parsePattern1F n l" and b = "3 * length l + 2"],
      rule upTo_parsePattern1F, rule finishes_parsePattern1F [THEN finishesD], simp, assumption,
      simp add: fuel_def)

lemma parseTreePatternF_fuel:
  "3 * length l + 1 \<le> n \<Longrightarrow> parseTreePatternF n l = parseTreePattern l"
  unfolding parseTreePattern_def
  by (rule fuel_indep [where f = "\<lambda>n. parseTreePatternF n l" and b = "3 * length l + 1"],
      rule upTo_parseTreePatternF, rule finishes_parseTreePatternF [THEN finishesD], simp, assumption,
      simp add: fuel_def)

lemma parseVarOrAsPatternF_fuel:
  "3 * length l + 1 \<le> n \<Longrightarrow> parseVarOrAsPatternF n l = parseVarOrAsPattern l"
  unfolding parseVarOrAsPattern_def
  by (rule fuel_indep [where f = "\<lambda>n. parseVarOrAsPatternF n l" and b = "3 * length l + 1"],
      rule upTo_parseVarOrAsPatternF, rule finishes_parseVarOrAsPatternF [THEN finishesD], simp, assumption,
      simp add: fuel_def)

lemma parseTermF_fuel: "3 * length l + 3 \<le> n \<Longrightarrow> parseTermF n l = parseTerm l"
  unfolding parseTerm_def
  by (rule fuel_indep [where f = "\<lambda>n. parseTermF n l" and b = "3 * length l + 3"],
      rule upTo_parseTermF, rule finishes_parseTermF [THEN finishesD], simp, assumption,
      simp add: fuel_def)

lemma parseTermLoopF_fuel:
  "3 * length l + 1 \<le> n \<Longrightarrow> parseTermLoopF n t l = parseTermLoop t l"
  unfolding parseTermLoop_def
  by (rule fuel_indep [where f = "\<lambda>n. parseTermLoopF n t l" and b = "3 * length l + 1"],
      rule upTo_parseTermLoopF, rule finishes_parseTermLoopF [THEN finishesD], simp, assumption,
      simp add: fuel_def)

lemma parseTerm1F_fuel: "3 * length l + 2 \<le> n \<Longrightarrow> parseTerm1F n l = parseTerm1 l"
  unfolding parseTerm1_def
  by (rule fuel_indep [where f = "\<lambda>n. parseTerm1F n l" and b = "3 * length l + 2"],
      rule upTo_parseTerm1F, rule finishes_parseTerm1F [THEN finishesD], simp, assumption,
      simp add: fuel_def)

lemma parseTreeOrVarOrAppF_fuel:
  "3 * length l + 1 \<le> n \<Longrightarrow> parseTreeOrVarOrAppF n l = parseTreeOrVarOrApp l"
  unfolding parseTreeOrVarOrApp_def
  by (rule fuel_indep [where f = "\<lambda>n. parseTreeOrVarOrAppF n l" and b = "3 * length l + 1"],
      rule upTo_parseTreeOrVarOrAppF, rule finishes_parseTreeOrVarOrAppF [THEN finishesD], simp, assumption,
      simp add: fuel_def)

lemma parseMatchTermF_fuel:
  "3 * length l + 1 \<le> n \<Longrightarrow> parseMatchTermF n l = parseMatchTerm l"
  unfolding parseMatchTerm_def
  by (rule fuel_indep [where f = "\<lambda>n. parseMatchTermF n l" and b = "3 * length l + 1"],
      rule upTo_parseMatchTermF, rule finishes_parseMatchTermF [THEN finishesD], simp, assumption,
      simp add: fuel_def)

lemma parseMatchClauseF_fuel:
  "3 * length l + 4 \<le> n \<Longrightarrow> parseMatchClauseF n l = parseMatchClause l"
  unfolding parseMatchClause_def
  by (rule fuel_indep [where f = "\<lambda>n. parseMatchClauseF n l" and b = "3 * length l + 4"],
      rule upTo_parseMatchClauseF, rule finishes_parseMatchClauseF [THEN finishesD], simp, assumption,
      simp add: fuel_def)

lemma parseDefF_fuel: "3 * length l + 1 \<le> n \<Longrightarrow> parseDefF n l = parseDef l"
  unfolding parseDef_def
  by (rule fuel_indep [where f = "\<lambda>n. parseDefF n l" and b = "3 * length l + 1"],
      rule upTo_parseDefF, rule finishes_parseDefF [THEN finishesD], simp, assumption,
      simp add: fuel_def)

lemma parseItemF_fuel: "3 * length l + 4 \<le> n \<Longrightarrow> parseItemF n l = parseItem l"
  unfolding parseItem_def
  by (rule fuel_indep [where f = "\<lambda>n. parseItemF n l" and b = "3 * length l + 4"],
      rule upTo_parseItemF, rule finishes_parseItemF [THEN finishesD], simp, assumption,
      simp add: fuel_def)

lemma parseProgramLoopF_fuel:
  "3 * length l + 5 \<le> n \<Longrightarrow> parseProgramLoopF n items l = parseProgramLoop items l"
  unfolding parseProgramLoop_def
  by (rule fuel_indep [where f = "\<lambda>n. parseProgramLoopF n items l" and b = "3 * length l + 5"],
      rule upTo_parseProgramLoopF, rule finishes_parseProgramLoopF [OF _ le_refl, THEN finishesD], simp, assumption,
      simp add: fuel_def)

text \<open>What the fuel-free parsers leave.\<close>

lemma parser_ok_parsePattern: "parser_ok parsePattern"
  by (simp add: parser_ok_def parsePattern_def finishes_parsePatternF fuel_def)

lemma parser_ok_parseTerm: "parser_ok parseTerm"
  by (simp add: parser_ok_def parseTerm_def finishes_parseTermF fuel_def)

lemma parser_ok_parseMatchClause: "parser_ok parseMatchClause"
  by (simp add: parser_ok_def parseMatchClause_def finishes_parseMatchClauseF fuel_def)

lemma parser_okD: "parser_ok p \<Longrightarrow> finishes (p l) (shorter l)"
  by (simp add: parser_ok_def)

section \<open>The bodies of the parsers, without fuel\<close>

lemma andThen_cong_fin:
  assumes "m = m'" and "finishes m' Q" and "\<And>a l1. Q a l1 \<Longrightarrow> k a l1 = k' a l1"
  shows "andThen m k = andThen m' k'"
  using assms by (cases m') (simp_all add: finishes_def)

lemma if_cong_eq:
  "(c \<Longrightarrow> a = a') \<Longrightarrow> (\<not> c \<Longrightarrow> b = b') \<Longrightarrow> (if c then a else b) = (if c then a' else b')"
  by simp

lemma parseCommaSepLoopF_cong:
  assumes eq: "\<And>l'. length l' \<le> length l0 \<Longrightarrow> p l' = q l'"
    and ok: "parser_ok q"
  shows "length l \<le> length l0 \<Longrightarrow>
    parseCommaSepLoopF n p stop elts l = parseCommaSepLoopF n q stop elts l"
proof (induction n arbitrary: elts l)
  case 0
  show ?case by simp
next
  case (Suc n)
  note rules = refl if_cong_eq andThen_cong_fin finishes_expect eq ok [THEN parser_okD] Suc.IH
  show ?case
    apply (insert Suc.prems)
    apply (subst parseCommaSepLoopF.simps(2))
    apply (subst parseCommaSepLoopF.simps(2))
    apply (rule rules | (simp add: shorter_def; fail))+
    done
qed

lemma parseCommaSepF_cong:
  assumes eq: "\<And>l'. length l' \<le> length l \<Longrightarrow> p l' = q l'"
    and ok: "parser_ok q"
  shows "parseCommaSepF n p stop l = parseCommaSepF n q stop l"
proof (cases n)
  case 0
  then show ?thesis by simp
next
  case (Suc m)
  note rules = refl if_cong_eq andThen_cong_fin eq ok [THEN parser_okD]
    parseCommaSepLoopF_cong [where p = p and q = q and ?l0.0 = l, OF eq ok]
  show ?thesis unfolding Suc
    apply (subst parseCommaSepF.simps(2))
    apply (subst parseCommaSepF.simps(2))
    apply (rule rules | (simp add: shorter_def; fail))+
    done
qed

lemma parseCommaSepF_fuel:
  assumes eq: "\<And>l'. length l' \<le> length l \<Longrightarrow> p l' = q l'"
    and ok: "parser_ok q" and n: "length l + 1 < n"
  shows "parseCommaSepF n p stop l = parseCommaSep q stop l"
proof -
  have "parseCommaSepF n p stop l = parseCommaSepF n q stop l"
    by (rule parseCommaSepF_cong [OF eq ok])
  also have "\<dots> = parseCommaSepF (fuel l) q stop l"
  proof (rule fuel_indep [where f = "\<lambda>n. parseCommaSepF n q stop l" and b = "length l + 2"])
    show "upTo (parseCommaSepF k q stop l) (parseCommaSepF (Suc k) q stop l)" for k
      by (rule upTo_parseCommaSepF) simp
    show "parseCommaSepF (length l + 2) q stop l \<noteq> OutOfFuel"
      by (rule finishes_parseCommaSepF [THEN finishesD]) (simp_all add: ok [THEN parser_okD])
    show "length l + 2 \<le> n" using n by simp
    show "length l + 2 \<le> fuel l" by (simp add: fuel_def)
  qed
  finally show ?thesis by (simp add: parseCommaSep_def)
qed

lemma parseCommaSepLoopF_fuel:
  assumes eq: "\<And>l'. length l' \<le> length l \<Longrightarrow> p l' = q l'"
    and ok: "parser_ok q" and n: "length l < n"
  shows "parseCommaSepLoopF n p stop elts l = parseCommaSepLoop q stop elts l"
proof -
  have "parseCommaSepLoopF n p stop elts l = parseCommaSepLoopF n q stop elts l"
    by (rule parseCommaSepLoopF_cong [where ?l0.0 = l, OF eq ok]) (simp_all)
  also have "\<dots> = parseCommaSepLoopF (fuel l) q stop elts l"
  proof (rule fuel_indep [where f = "\<lambda>n. parseCommaSepLoopF n q stop elts l"
        and b = "length l + 1"])
    show "upTo (parseCommaSepLoopF k q stop elts l) (parseCommaSepLoopF (Suc k) q stop elts l)"
      for k
      by (rule upTo_parseCommaSepLoopF) simp
    show "parseCommaSepLoopF (length l + 1) q stop elts l \<noteq> OutOfFuel"
      by (rule finishes_parseCommaSepLoopF [OF _ le_refl, THEN finishesD])
        (simp_all add: ok [THEN parser_okD])
    show "length l + 1 \<le> n" using n by simp
    show "length l + 1 \<le> fuel l" by (simp add: fuel_def)
  qed
  finally show ?thesis by (simp add: parseCommaSepLoop_def)
qed

lemma fuel_Suc: "fuel l = Suc (3 * length l + 4)"
  by (simp add: fuel_def)

lemma finishes_parseCommaSep: "parser_ok q \<Longrightarrow> finishes (parseCommaSep q stop l) (shorter l)"
  unfolding parseCommaSep_def
  by (rule finishes_parseCommaSepF) (simp_all add: parser_okD fuel_def)

lemma finishes_parsePattern: "finishes (parsePattern l) (shorter l)"
  by (simp add: parsePattern_def finishes_parsePatternF fuel_def)

lemma finishes_parsePattern1: "finishes (parsePattern1 l) (shorter l)"
  by (simp add: parsePattern1_def finishes_parsePattern1F fuel_def)

lemma finishes_parseTerm: "finishes (parseTerm l) (shorter l)"
  by (simp add: parseTerm_def finishes_parseTermF fuel_def)

lemma finishes_parseTerm1: "finishes (parseTerm1 l) (shorter l)"
  by (simp add: parseTerm1_def finishes_parseTerm1F fuel_def)

lemma finishes_parseMatchClause: "finishes (parseMatchClause l) (shorter l)"
  by (simp add: parseMatchClause_def finishes_parseMatchClauseF fuel_def)

lemma finishes_parseDef: "finishes (parseDef l) (shorter l)"
  by (simp add: parseDef_def finishes_parseDefF fuel_def)

lemma finishes_parseItem: "finishes (parseItem l) (shorter l)"
  by (simp add: parseItem_def finishes_parseItemF fuel_def)

lemmas unfold_rules =
  refl if_cong_eq andThen_cong_fin
  finishes_expect finishes_pop finishes_peek finishes_if finishes_andThen finishes_Ret
  finishes_parsePattern finishes_parsePattern1 finishes_parseTerm finishes_parseTerm1
  finishes_parseMatchClause finishes_parseDef finishes_parseItem
  finishes_parseCommaSep [OF parser_ok_parsePattern]
  finishes_parseCommaSep [OF parser_ok_parseTerm]
  finishes_parseCommaSep [OF parser_ok_parseMatchClause]
  parsePatternF_fuel parsePatternLoopF_fuel parsePattern1F_fuel parseTreePatternF_fuel
  parseVarOrAsPatternF_fuel parseTermF_fuel parseTermLoopF_fuel parseTerm1F_fuel
  parseTreeOrVarOrAppF_fuel parseMatchTermF_fuel parseMatchClauseF_fuel
  parseDefF_fuel parseItemF_fuel parseProgramLoopF_fuel
  parseCommaSepF_fuel [OF _ parser_ok_parsePattern]
  parseCommaSepF_fuel [OF _ parser_ok_parseTerm]
  parseCommaSepF_fuel [OF _ parser_ok_parseMatchClause]

lemma parsePattern_unfold:
  "parsePattern l =
     andThen (parsePattern1 l) (\<lambda>pat l1. parsePatternLoop pat l1)"
  (is "_ = ?rhs")
proof -
  have "parsePattern l = parsePatternF (Suc (3 * length l + 4)) l"
    by (simp only: parsePattern_def fuel_Suc)
  also have "\<dots> = ?rhs"
    apply (subst parsePatternF.simps(2))
    apply (rule unfold_rules | (simp add: shorter_def; fail))+
    done
  finally show ?thesis .
qed

lemma parsePatternLoop_unfold:
  "parsePatternLoop pat l =
     (if hasMore l \<and> peekIs [TT_colon] l then
        andThen (pop l) (\<lambda>_ l1.
        andThen (parsePattern l1) (\<lambda>tl l2.
          parsePatternLoop (ConsPattern pat tl) l2))
      else Ret pat l)"
  (is "_ = ?rhs")
proof -
  have "parsePatternLoop pat l = parsePatternLoopF (Suc (3 * length l + 4)) pat l"
    by (simp only: parsePatternLoop_def fuel_Suc)
  also have "\<dots> = ?rhs"
    apply (subst parsePatternLoopF.simps(2))
    apply (rule unfold_rules | (simp add: shorter_def; fail))+
    done
  finally show ?thesis .
qed

lemma parsePattern1_unfold:
  "parsePattern1 l =
     andThen (peek l) (\<lambda>peeked _.
       if tok_type peeked \<in> set [TT_bareAtom, TT_quotedAtom] then parseTreePattern l
       else if tok_type peeked = TT_wildcard then
         andThen (pop l) (\<lambda>_ l1. Ret WildcardPattern l1)
       else if tok_type peeked = TT_ident then parseVarOrAsPattern l
       else if tok_type peeked = TT_string then
         andThen (pop l) (\<lambda>t l1. Ret (StringPattern (getStringText (tok_text t))) l1)
       else if tok_type peeked = TT_lBracket then
         andThen (pop l) (\<lambda>_ l1.
         andThen (parseCommaSep parsePattern [TT_rBracket] l1) (\<lambda>elts l2.
         andThen (expect [TT_rBracket] l2) (\<lambda>_ l3.
           Ret (ListPattern elts) l3)))
       else if tok_type peeked = TT_lParen then
         andThen (pop l) (\<lambda>_ l1.
         andThen (parsePattern l1) (\<lambda>inner l2.
         andThen (expect [TT_rParen] l2) (\<lambda>_ l3.
           Ret inner l3)))
       else Throw (Error ''expected a pattern''))"
  (is "_ = ?rhs")
proof -
  have "parsePattern1 l = parsePattern1F (Suc (3 * length l + 4)) l"
    by (simp only: parsePattern1_def fuel_Suc)
  also have "\<dots> = ?rhs"
    apply (subst parsePattern1F.simps(2))
    apply (rule unfold_rules | (simp add: shorter_def; fail))+
    done
  finally show ?thesis .
qed

lemma parseTreePattern_unfold:
  "parseTreePattern l =
     andThen (expect [TT_bareAtom, TT_quotedAtom] l) (\<lambda>start l1.
       if hasMore l1 \<and> peekIs [TT_lParen] l1 then
         andThen (pop l1) (\<lambda>_ l2.
         andThen (parseCommaSep parsePattern [TT_rParen] l2) (\<lambda>children l3.
         andThen (expect [TT_rParen] l3) (\<lambda>_ l4.
           Ret (TreePattern (startText start) children) l4)))
       else Ret (TreePattern (startText start) []) l1)"
  (is "_ = ?rhs")
proof -
  have "parseTreePattern l = parseTreePatternF (Suc (3 * length l + 4)) l"
    by (simp only: parseTreePattern_def fuel_Suc)
  also have "\<dots> = ?rhs"
    apply (subst parseTreePatternF.simps(2))
    apply (rule unfold_rules | (simp add: shorter_def; fail))+
    done
  finally show ?thesis .
qed

lemma parseVarOrAsPattern_unfold:
  "parseVarOrAsPattern l =
     andThen (expect [TT_ident] l) (\<lambda>t l1.
       if hasMore l1 \<and> peekIs [TT_amp] l1 then
         andThen (pop l1) (\<lambda>_ l2.
         andThen (parsePattern l2) (\<lambda>p l3.
           Ret (AsPattern (tok_text t) p) l3))
       else Ret (VarPattern (tok_text t)) l1)"
  (is "_ = ?rhs")
proof -
  have "parseVarOrAsPattern l = parseVarOrAsPatternF (Suc (3 * length l + 4)) l"
    by (simp only: parseVarOrAsPattern_def fuel_Suc)
  also have "\<dots> = ?rhs"
    apply (subst parseVarOrAsPatternF.simps(2))
    apply (rule unfold_rules | (simp add: shorter_def; fail))+
    done
  finally show ?thesis .
qed

lemma parseTerm_unfold:
  "parseTerm l =
     andThen (parseTerm1 l) (\<lambda>term l1. parseTermLoop term l1)"
  (is "_ = ?rhs")
proof -
  have "parseTerm l = parseTermF (Suc (3 * length l + 4)) l"
    by (simp only: parseTerm_def fuel_Suc)
  also have "\<dots> = ?rhs"
    apply (subst parseTermF.simps(2))
    apply (rule unfold_rules | (simp add: shorter_def; fail))+
    done
  finally show ?thesis .
qed

lemma parseTermLoop_unfold:
  "parseTermLoop term l =
     (if hasMore l \<and> peekIs [TT_colon] l then
        andThen (pop l) (\<lambda>_ l1.
        andThen (parseTerm l1) (\<lambda>tl l2.
          parseTermLoop (ConsTerm term tl) l2))
      else Ret term l)"
  (is "_ = ?rhs")
proof -
  have "parseTermLoop term l = parseTermLoopF (Suc (3 * length l + 4)) term l"
    by (simp only: parseTermLoop_def fuel_Suc)
  also have "\<dots> = ?rhs"
    apply (subst parseTermLoopF.simps(2))
    apply (rule unfold_rules | (simp add: shorter_def; fail))+
    done
  finally show ?thesis .
qed

lemma parseTerm1_unfold:
  "parseTerm1 l =
     andThen (peek l) (\<lambda>peeked _.
       if tok_type peeked \<in> set [TT_bareAtom, TT_quotedAtom, TT_ident] then
         parseTreeOrVarOrApp l
       else if tok_type peeked = TT_string then
         andThen (pop l) (\<lambda>t l1. Ret (StringTerm (getStringText (tok_text t))) l1)
       else if tok_type peeked = TT_lBracket then
         andThen (pop l) (\<lambda>_ l1.
         andThen (parseCommaSep parseTerm [TT_rBracket] l1) (\<lambda>elts l2.
         andThen (expect [TT_rBracket] l2) (\<lambda>_ l3.
           Ret (ListTerm elts) l3)))
       else if tok_type peeked = TT_lParen then
         andThen (pop l) (\<lambda>_ l1.
         andThen (parseTerm l1) (\<lambda>inner l2.
         andThen (expect [TT_rParen] l2) (\<lambda>_ l3.
           Ret inner l3)))
       else if tok_type peeked = TT_matchKw then parseMatchTerm l
       else Throw (Error ''expected a term''))"
  (is "_ = ?rhs")
proof -
  have "parseTerm1 l = parseTerm1F (Suc (3 * length l + 4)) l"
    by (simp only: parseTerm1_def fuel_Suc)
  also have "\<dots> = ?rhs"
    apply (subst parseTerm1F.simps(2))
    apply (rule unfold_rules | (simp add: shorter_def; fail))+
    done
  finally show ?thesis .
qed

lemma parseTreeOrVarOrApp_unfold:
  "parseTreeOrVarOrApp l =
     andThen (expect [TT_bareAtom, TT_quotedAtom, TT_ident] l) (\<lambda>start l1.
       if hasMore l1 \<and> peekIs [TT_lParen] l1 then
         andThen (pop l1) (\<lambda>_ l2.
         andThen (parseCommaSep parseTerm [TT_rParen] l2) (\<lambda>terms l3.
         andThen (expect [TT_rParen] l3) (\<lambda>_ l4.
           Ret (treeOrVarOrApp start terms) l4)))
       else Ret (treeOrVarOrApp start []) l1)"
  (is "_ = ?rhs")
proof -
  have "parseTreeOrVarOrApp l = parseTreeOrVarOrAppF (Suc (3 * length l + 4)) l"
    by (simp only: parseTreeOrVarOrApp_def fuel_Suc)
  also have "\<dots> = ?rhs"
    apply (subst parseTreeOrVarOrAppF.simps(2))
    apply (rule unfold_rules | (simp add: shorter_def; fail))+
    done
  finally show ?thesis .
qed

lemma parseMatchTerm_unfold:
  "parseMatchTerm l =
     andThen (expect [TT_matchKw] l) (\<lambda>_ l1.
     andThen (parseCommaSep parseTerm [TT_lCurly] l1) (\<lambda>terms l2.
     andThen (expect [TT_lCurly] l2) (\<lambda>_ l3.
     andThen (parseCommaSep parseMatchClause [TT_rCurly] l3) (\<lambda>clauses l4.
     andThen (expect [TT_rCurly] l4) (\<lambda>_ l5.
       Ret (MatchTerm terms clauses) l5)))))"
  (is "_ = ?rhs")
proof -
  have "parseMatchTerm l = parseMatchTermF (Suc (3 * length l + 4)) l"
    by (simp only: parseMatchTerm_def fuel_Suc)
  also have "\<dots> = ?rhs"
    apply (subst parseMatchTermF.simps(2))
    apply (rule unfold_rules | (simp add: shorter_def; fail))+
    done
  finally show ?thesis .
qed

lemma parseMatchClause_unfold:
  "parseMatchClause l =
     andThen (parseCommaSep parsePattern [TT_arrow] l) (\<lambda>pats l1.
     andThen (expect [TT_arrow] l1) (\<lambda>_ l2.
     andThen (parseTerm l2) (\<lambda>b l3.
       Ret (MatchClause pats b) l3)))"
  (is "_ = ?rhs")
proof -
  have "parseMatchClause l = parseMatchClauseF (Suc (3 * length l + 4)) l"
    by (simp only: parseMatchClause_def fuel_Suc)
  also have "\<dots> = ?rhs"
    apply (subst parseMatchClauseF.simps(2))
    apply (rule unfold_rules | (simp add: shorter_def; fail))+
    done
  finally show ?thesis .
qed

lemma parseDef_unfold:
  "parseDef l =
     andThen (expect [TT_letKw] l) (\<lambda>_ l1.
     andThen (expect [TT_ident] l1) (\<lambda>nm l2.
     andThen (if hasMore l2 \<and> peekIs [TT_lParen] l2 then
                andThen (pop l2) (\<lambda>_ l3.
                andThen (parseCommaSep parsePattern [TT_rParen] l3) (\<lambda>pats l4.
                andThen (expect [TT_rParen] l4) (\<lambda>_ l5. Ret pats l5)))
              else Ret [] l2) (\<lambda>pats l6.
     andThen (expect [TT_eq] l6) (\<lambda>_ l7.
     andThen (parseTerm l7) (\<lambda>b l8.
       Ret \<lparr>name = tok_text nm, patterns = pats, body = b\<rparr> l8)))))"
  (is "_ = ?rhs")
proof -
  have "parseDef l = parseDefF (Suc (3 * length l + 4)) l"
    by (simp only: parseDef_def fuel_Suc)
  also have "\<dots> = ?rhs"
    apply (subst parseDefF.simps(2))
    apply (rule andThen_cong_fin, rule refl, rule finishes_expect)
    apply (rule andThen_cong_fin, rule refl, rule finishes_expect)
    apply (rule andThen_cong_fin [where Q = "\<lambda>_ l'. length l' + 2 \<le> length l"])
    apply (rule unfold_rules | (simp add: shorter_def; fail))+
    done
  finally show ?thesis .
qed

lemma parseItem_unfold:
  "parseItem l =
     andThen (peek l) (\<lambda>peeked _.
       if tok_type peeked = TT_letKw
       then andThen (parseDef l) (\<lambda>d l1. Ret (DefItem d) l1)
       else andThen (parseTerm l) (\<lambda>t l1. Ret (TermItem t) l1))"
  (is "_ = ?rhs")
proof -
  have "parseItem l = parseItemF (Suc (3 * length l + 4)) l"
    by (simp only: parseItem_def fuel_Suc)
  also have "\<dots> = ?rhs"
    apply (subst parseItemF.simps(2))
    apply (rule unfold_rules | (simp add: shorter_def; fail))+
    done
  finally show ?thesis .
qed

lemma parseProgramLoop_unfold:
  "parseProgramLoop items l =
     (if hasMore l then
        andThen (parseItem l) (\<lambda>item l1.
        andThen (expect [TT_semi] l1) (\<lambda>_ l2.
          parseProgramLoop (items @ [item]) l2))
      else Ret items l)"
  (is "_ = ?rhs")
proof -
  have "parseProgramLoop items l = parseProgramLoopF (Suc (3 * length l + 4)) items l"
    by (simp only: parseProgramLoop_def fuel_Suc)
  also have "\<dots> = ?rhs"
    apply (subst parseProgramLoopF.simps(2))
    apply (rule unfold_rules | (simp add: shorter_def; fail))+
    done
  finally show ?thesis .
qed

lemma tok_simps [simp]: "tok_type (tok ty tx) = ty" "tok_text (tok ty tx) = tx"
  by (simp_all add: tok_def)

lemma andThen_RetE:
  assumes "andThen m k = Ret r l'"
  obtains a l1 where "m = Ret a l1" and "k a l1 = Ret r l'"
  using assms by (cases m) simp_all

section \<open>Comma-separated lists, for any element parser\<close>


lemma parseCommaSepLoopF_extends:
  "parseCommaSepLoopF n p stop elts l = Ret es l' \<Longrightarrow> \<exists>ys. es = elts @ ys"
proof (induction n arbitrary: elts l)
  case 0
  then show ?case by simp
next
  case (Suc n)
  from Suc.prems show ?case
    by (fastforce split: if_splits elim!: andThen_RetE dest: Suc.IH)
qed


lemma parseCommaSepF_Nil_iff:
  assumes "parseCommaSepF n p stop l = Ret es l'"
  shows "(es = []) = (\<not> hasMore l \<or> peekIs stop l)"
proof (cases n)
  case 0
  with assms show ?thesis by simp
next
  case (Suc m)
  with assms show ?thesis
    by (auto split: if_splits elim!: andThen_RetE dest: parseCommaSepLoopF_extends)
qed

lemma parseCommaSepF_Nil_same:
  "parseCommaSepF n p stop l = Ret [] l' \<Longrightarrow> l' = l"
  by (cases n) (auto split: if_splits elim!: andThen_RetE dest: parseCommaSepLoopF_extends)

section \<open>No colon is left behind\<close>

lemma parseTermLoopF_noColon:
  "parseTermLoopF n t l = Ret r l' \<Longrightarrow> \<not> (hasMore l' \<and> peekIs [TT_colon] l')"
proof (induction n arbitrary: t l)
  case 0
  then show ?case by simp
next
  case (Suc n)
  show ?case
  proof (cases "hasMore l \<and> peekIs [TT_colon] l")
    case True
    with Suc.prems show ?thesis
      by (auto simp del: peekIs_simps elim!: andThen_RetE dest: Suc.IH)
  next
    case False
    with Suc.prems show ?thesis by auto
  qed
qed

lemma parsePatternLoopF_noColon:
  "parsePatternLoopF n t l = Ret r l' \<Longrightarrow> \<not> (hasMore l' \<and> peekIs [TT_colon] l')"
proof (induction n arbitrary: t l)
  case 0
  then show ?case by simp
next
  case (Suc n)
  show ?case
  proof (cases "hasMore l \<and> peekIs [TT_colon] l")
    case True
    with Suc.prems show ?thesis
      by (auto simp del: peekIs_simps elim!: andThen_RetE dest: Suc.IH)
  next
    case False
    with Suc.prems show ?thesis by auto
  qed
qed

lemma parseTerm_noColon:
  assumes "parseTerm l = Ret r l'"
  shows "\<not> (hasMore l' \<and> peekIs [TT_colon] l')"
proof -
  from assms obtain a l1 where "parseTermLoop a l1 = Ret r l'"
    by (subst (asm) parseTerm_unfold) (erule andThen_RetE)
  then show ?thesis
    unfolding parseTermLoop_def by (rule parseTermLoopF_noColon)
qed

lemma parsePattern_noColon:
  assumes "parsePattern l = Ret r l'"
  shows "\<not> (hasMore l' \<and> peekIs [TT_colon] l')"
proof -
  from assms obtain a l1 where "parsePatternLoop a l1 = Ret r l'"
    by (subst (asm) parsePattern_unfold) (erule andThen_RetE)
  then show ?thesis
    unfolding parsePatternLoop_def by (rule parsePatternLoopF_noColon)
qed

text \<open>So the loop after the first operand runs at most once.\<close>

lemma parseTermLoop_once:
  "parseTermLoop a l =
     (if hasMore l \<and> peekIs [TT_colon] l then
        andThen (pop l) (\<lambda>_ l1.
        andThen (parseTerm l1) (\<lambda>tl l2. Ret (ConsTerm a tl) l2))
      else Ret a l)"
proof (cases "hasMore l \<and> peekIs [TT_colon] l")
  case False
  then show ?thesis by (subst parseTermLoop_unfold) auto
next
  case True
  then obtain c l1 where l: "l = c # l1" by (cases l) simp_all
  have "parseTermLoop (ConsTerm a tl) l2 = Ret (ConsTerm a tl) l2"
    if "parseTerm l1 = Ret tl l2" for tl l2
    using parseTerm_noColon [OF that] by (subst parseTermLoop_unfold) auto
  then have "andThen (parseTerm l1) (\<lambda>tl l2. parseTermLoop (ConsTerm a tl) l2) =
      andThen (parseTerm l1) (\<lambda>tl l2. Ret (ConsTerm a tl) l2)"
    by (cases "parseTerm l1") simp_all
  with True l show ?thesis by (subst parseTermLoop_unfold) simp
qed

lemma parsePatternLoop_once:
  "parsePatternLoop a l =
     (if hasMore l \<and> peekIs [TT_colon] l then
        andThen (pop l) (\<lambda>_ l1.
        andThen (parsePattern l1) (\<lambda>tl l2. Ret (ConsPattern a tl) l2))
      else Ret a l)"
proof (cases "hasMore l \<and> peekIs [TT_colon] l")
  case False
  then show ?thesis by (subst parsePatternLoop_unfold) auto
next
  case True
  then obtain c l1 where l: "l = c # l1" by (cases l) simp_all
  have "parsePatternLoop (ConsPattern a tl) l2 = Ret (ConsPattern a tl) l2"
    if "parsePattern l1 = Ret tl l2" for tl l2
    using parsePattern_noColon [OF that] by (subst parsePatternLoop_unfold) auto
  then have "andThen (parsePattern l1) (\<lambda>tl l2. parsePatternLoop (ConsPattern a tl) l2) =
      andThen (parsePattern l1) (\<lambda>tl l2. Ret (ConsPattern a tl) l2)"
    by (cases "parsePattern l1") simp_all
  with True l show ?thesis by (subst parsePatternLoop_unfold) simp
qed

section \<open>Unescaping\<close>

lemma substring_strip: "substring (c # content @ [d]) 1 (int (length (c # content @ [d])) - 1) = content"
  by (simp add: substring_def Let_def min_def max_def)

lemma replaceEscaped_none: "\<not> hasEscaped q s \<Longrightarrow> replaceEscaped q s = s"
  by (induction q s rule: replaceEscaped.induct) auto

lemma replaceEscaped_first:
  "q \<noteq> CHR 0x5C \<Longrightarrow> \<not> hasEscaped q xs \<Longrightarrow>
   replaceEscaped q (xs @ CHR 0x5C # q # ys) = xs @ q # replaceEscaped q ys"
  by (induction q xs rule: replaceEscaped.induct) auto

section \<open>Equations of the parsers\<close>

lemma parseCommaSep_unfold:
  assumes ok: "parser_ok p"
  shows "parseCommaSep p stop l =
     (if \<not> hasMore l \<or> peekIs stop l then Ret [] l
      else andThen (p l) (\<lambda>x l1. parseCommaSepLoop p stop [x] l1))"
  (is "_ = ?rhs")
proof -
  have "parseCommaSep p stop l = parseCommaSepF (Suc (3 * length l + 4)) p stop l"
    by (simp only: parseCommaSep_def fuel_Suc)
  also have "\<dots> = ?rhs"
    apply (subst parseCommaSepF.simps(2))
    apply (rule refl if_cong_eq andThen_cong_fin ok [THEN parser_okD]
        parseCommaSepLoopF_fuel [OF refl ok] | (simp add: shorter_def; fail))+
    done
  finally show ?thesis .
qed

lemma parseCommaSepLoop_unfold:
  assumes ok: "parser_ok p"
  shows "parseCommaSepLoop p stop elts l =
     (if hasMore l then
        if peekIs stop l then Ret elts l
        else andThen (expect [TT_comma] l) (\<lambda>_ l1.
          if \<not> hasMore l1 \<or> peekIs stop l1 then Ret elts l1
          else andThen (p l1) (\<lambda>x l2.
            parseCommaSepLoop p stop (elts @ [x]) l2))
      else Ret elts l)"
  (is "_ = ?rhs")
proof -
  have "parseCommaSepLoop p stop elts l = parseCommaSepLoopF (Suc (3 * length l + 4)) p stop elts l"
    by (simp only: parseCommaSepLoop_def fuel_Suc)
  also have "\<dots> = ?rhs"
    apply (subst parseCommaSepLoopF.simps(2))
    apply (rule refl if_cong_eq andThen_cong_fin ok [THEN parser_okD] finishes_expect
        parseCommaSepLoopF_fuel [OF refl ok] | (simp add: shorter_def; fail))+
    done
  finally show ?thesis .
qed

text \<open>The same equations on an exhausted cursor and on a cursor with a first token.\<close>

lemma parseCommaSep_Nil: "parseCommaSep p stop [] = Ret [] []"
  by (subst parseCommaSep_def, subst fuel_Suc, subst parseCommaSepF.simps, simp)

lemma parseCommaSep_Cons:
  "parser_ok p \<Longrightarrow> parseCommaSep p stop (tk # rest) =
     (if tok_type tk \<in> set stop then Ret [] (tk # rest)
      else andThen (p (tk # rest)) (\<lambda>x l1. parseCommaSepLoop p stop [x] l1))"
  by (simp add: parseCommaSep_unfold)

lemma parseCommaSepLoop_Nil: "parseCommaSepLoop p stop elts [] = Ret elts []"
  by (subst parseCommaSepLoop_def, subst fuel_Suc, subst parseCommaSepLoopF.simps, simp)

lemma parseCommaSepLoop_Cons:
  "parser_ok p \<Longrightarrow> parseCommaSepLoop p stop elts (tk # rest) =
     (if tok_type tk \<in> set stop then Ret elts (tk # rest)
      else if tok_type tk = TT_comma then
        if \<not> hasMore rest \<or> peekIs stop rest then Ret elts rest
        else andThen (p rest) (\<lambda>x l2. parseCommaSepLoop p stop (elts @ [x]) l2)
      else Throw SyntaxError)"
  using parseCommaSepLoop_unfold [of p stop elts "tk # rest"] by simp

lemma parsePattern_Nil: "parsePattern [] = Throw SyntaxError"
  by (simp add: parsePattern_unfold parsePattern1_unfold)

lemma parsePattern_Cons:
  "parsePattern (tk # rest) =
     andThen (parsePattern1 (tk # rest)) (\<lambda>pat l1. parsePatternLoop pat l1)"
  by (rule parsePattern_unfold)

lemma parsePatternLoop_Nil: "parsePatternLoop pat [] = Ret pat []"
  by (simp add: parsePatternLoop_once)

lemma parsePatternLoop_Cons:
  "parsePatternLoop pat (tk # rest) =
     (if tok_type tk = TT_colon
      then andThen (parsePattern rest) (\<lambda>tl l2. Ret (ConsPattern pat tl) l2)
      else Ret pat (tk # rest))"
  by (simp add: parsePatternLoop_once)

lemma parsePattern1_Nil: "parsePattern1 [] = Throw SyntaxError"
  by (simp add: parsePattern1_unfold)

lemma parsePattern1_Cons:
  "parsePattern1 (tk # rest) =
     (if tok_type tk \<in> set [TT_bareAtom, TT_quotedAtom] then parseTreePattern (tk # rest)
      else if tok_type tk = TT_wildcard then Ret WildcardPattern rest
      else if tok_type tk = TT_ident then parseVarOrAsPattern (tk # rest)
      else if tok_type tk = TT_string then
        Ret (StringPattern (getStringText (tok_text tk))) rest
      else if tok_type tk = TT_lBracket then
        andThen (parseCommaSep parsePattern [TT_rBracket] rest) (\<lambda>elts l2.
        andThen (expect [TT_rBracket] l2) (\<lambda>_ l3. Ret (ListPattern elts) l3))
      else if tok_type tk = TT_lParen then
        andThen (parsePattern rest) (\<lambda>inner l2.
        andThen (expect [TT_rParen] l2) (\<lambda>_ l3. Ret inner l3))
      else Throw (Error ''expected a pattern''))"
  using parsePattern1_unfold [of "tk # rest"] by simp

lemma parseTreePattern_Nil: "parseTreePattern [] = Throw SyntaxError"
  by (simp add: parseTreePattern_unfold)

lemma parseTreePattern_Cons:
  "parseTreePattern (tk # rest) =
     (if tok_type tk \<in> set [TT_bareAtom, TT_quotedAtom] then
        if hasMore rest \<and> peekIs [TT_lParen] rest then
          andThen (pop rest) (\<lambda>_ l2.
          andThen (parseCommaSep parsePattern [TT_rParen] l2) (\<lambda>children l3.
          andThen (expect [TT_rParen] l3) (\<lambda>_ l4.
            Ret (TreePattern (startText tk) children) l4)))
        else Ret (TreePattern (startText tk) []) rest
      else Throw SyntaxError)"
  using parseTreePattern_unfold [of "tk # rest"] by simp

lemma parseVarOrAsPattern_Nil: "parseVarOrAsPattern [] = Throw SyntaxError"
  by (simp add: parseVarOrAsPattern_unfold)

lemma parseVarOrAsPattern_Cons:
  "parseVarOrAsPattern (tk # rest) =
     (if tok_type tk = TT_ident then
        if hasMore rest \<and> peekIs [TT_amp] rest then
          andThen (pop rest) (\<lambda>_ l2.
          andThen (parsePattern l2) (\<lambda>p l3. Ret (AsPattern (tok_text tk) p) l3))
        else Ret (VarPattern (tok_text tk)) rest
      else Throw SyntaxError)"
  using parseVarOrAsPattern_unfold [of "tk # rest"] by simp

lemma parseTerm_Nil: "parseTerm [] = Throw SyntaxError"
  by (simp add: parseTerm_unfold parseTerm1_unfold)

lemma parseTerm_Cons:
  "parseTerm (tk # rest) = andThen (parseTerm1 (tk # rest)) (\<lambda>term l1. parseTermLoop term l1)"
  by (rule parseTerm_unfold)

lemma parseTermLoop_Nil: "parseTermLoop t [] = Ret t []"
  by (simp add: parseTermLoop_once)

lemma parseTermLoop_Cons:
  "parseTermLoop t (tk # rest) =
     (if tok_type tk = TT_colon
      then andThen (parseTerm rest) (\<lambda>tl l2. Ret (ConsTerm t tl) l2)
      else Ret t (tk # rest))"
  by (simp add: parseTermLoop_once)

lemma parseTerm1_Nil: "parseTerm1 [] = Throw SyntaxError"
  by (simp add: parseTerm1_unfold)

lemma parseTerm1_Cons:
  "parseTerm1 (tk # rest) =
     (if tok_type tk \<in> set [TT_bareAtom, TT_quotedAtom, TT_ident] then
        parseTreeOrVarOrApp (tk # rest)
      else if tok_type tk = TT_string then Ret (StringTerm (getStringText (tok_text tk))) rest
      else if tok_type tk = TT_lBracket then
        andThen (parseCommaSep parseTerm [TT_rBracket] rest) (\<lambda>elts l2.
        andThen (expect [TT_rBracket] l2) (\<lambda>_ l3. Ret (ListTerm elts) l3))
      else if tok_type tk = TT_lParen then
        andThen (parseTerm rest) (\<lambda>inner l2.
        andThen (expect [TT_rParen] l2) (\<lambda>_ l3. Ret inner l3))
      else if tok_type tk = TT_matchKw then parseMatchTerm (tk # rest)
      else Throw (Error ''expected a term''))"
  using parseTerm1_unfold [of "tk # rest"] by simp

lemma parseTreeOrVarOrApp_Nil: "parseTreeOrVarOrApp [] = Throw SyntaxError"
  by (simp add: parseTreeOrVarOrApp_unfold)

lemma parseTreeOrVarOrApp_Cons:
  "parseTreeOrVarOrApp (tk # rest) =
     (if tok_type tk \<in> set [TT_bareAtom, TT_quotedAtom, TT_ident] then
        if hasMore rest \<and> peekIs [TT_lParen] rest then
          andThen (pop rest) (\<lambda>_ l2.
          andThen (parseCommaSep parseTerm [TT_rParen] l2) (\<lambda>terms l3.
          andThen (expect [TT_rParen] l3) (\<lambda>_ l4.
            Ret (treeOrVarOrApp tk terms) l4)))
        else Ret (treeOrVarOrApp tk []) rest
      else Throw SyntaxError)"
  using parseTreeOrVarOrApp_unfold [of "tk # rest"] by simp

lemma parseMatchTerm_Nil: "parseMatchTerm [] = Throw SyntaxError"
  by (simp add: parseMatchTerm_unfold)

lemma parseMatchTerm_Cons:
  "parseMatchTerm (tk # rest) =
     (if tok_type tk = TT_matchKw then
        andThen (parseCommaSep parseTerm [TT_lCurly] rest) (\<lambda>terms l2.
        andThen (expect [TT_lCurly] l2) (\<lambda>_ l3.
        andThen (parseCommaSep parseMatchClause [TT_rCurly] l3) (\<lambda>clauses l4.
        andThen (expect [TT_rCurly] l4) (\<lambda>_ l5.
          Ret (MatchTerm terms clauses) l5))))
      else Throw SyntaxError)"
  using parseMatchTerm_unfold [of "tk # rest"] by simp

lemma parseMatchClause_Nil: "parseMatchClause [] = Throw SyntaxError"
  by (simp add: parseMatchClause_unfold parseCommaSep_Nil)

lemma parseMatchClause_Cons:
  "parseMatchClause (tk # rest) =
     andThen (parseCommaSep parsePattern [TT_arrow] (tk # rest)) (\<lambda>pats l1.
     andThen (expect [TT_arrow] l1) (\<lambda>_ l2.
     andThen (parseTerm l2) (\<lambda>b l3.
       Ret (MatchClause pats b) l3)))"
  by (rule parseMatchClause_unfold)

lemma parseDef_Nil: "parseDef [] = Throw SyntaxError"
  by (simp add: parseDef_unfold)

lemma parseDef_Cons:
  "parseDef (tk # rest) =
     (if tok_type tk = TT_letKw then
        andThen (expect [TT_ident] rest) (\<lambda>nm l2.
        andThen (if hasMore l2 \<and> peekIs [TT_lParen] l2 then
                   andThen (pop l2) (\<lambda>_ l3.
                   andThen (parseCommaSep parsePattern [TT_rParen] l3) (\<lambda>pats l4.
                   andThen (expect [TT_rParen] l4) (\<lambda>_ l5. Ret pats l5)))
                 else Ret [] l2) (\<lambda>pats l6.
        andThen (expect [TT_eq] l6) (\<lambda>_ l7.
        andThen (parseTerm l7) (\<lambda>b l8.
          Ret \<lparr>name = tok_text nm, patterns = pats, body = b\<rparr> l8))))
      else Throw SyntaxError)"
  using parseDef_unfold [of "tk # rest"] by simp

lemma parseItem_Nil: "parseItem [] = Throw SyntaxError"
  by (simp add: parseItem_unfold)

lemma parseItem_Cons:
  "parseItem (tk # rest) =
     (if tok_type tk = TT_letKw
      then andThen (parseDef (tk # rest)) (\<lambda>d l1. Ret (DefItem d) l1)
      else andThen (parseTerm (tk # rest)) (\<lambda>t l1. Ret (TermItem t) l1))"
  using parseItem_unfold [of "tk # rest"] by simp

lemma parseProgramLoop_Nil: "parseProgramLoop items [] = Ret items []"
  using parseProgramLoop_unfold [of items "[]"] by simp

lemma parseProgramLoop_Cons:
  "parseProgramLoop items (tk # rest) =
     andThen (parseItem (tk # rest)) (\<lambda>item l1.
     andThen (expect [TT_semi] l1) (\<lambda>_ l2.
       parseProgramLoop (items @ [item]) l2))"
  using parseProgramLoop_unfold [of items "tk # rest"] by simp

lemmas parse_eval =
  parseCommaSep_Nil parseCommaSep_Cons parseCommaSepLoop_Nil parseCommaSepLoop_Cons
  parsePattern_Nil parsePattern_Cons parsePatternLoop_Nil parsePatternLoop_Cons
  parsePattern1_Nil parsePattern1_Cons parseTreePattern_Nil parseTreePattern_Cons
  parseVarOrAsPattern_Nil parseVarOrAsPattern_Cons
  parseTerm_Nil parseTerm_Cons parseTermLoop_Nil parseTermLoop_Cons
  parseTerm1_Nil parseTerm1_Cons parseTreeOrVarOrApp_Nil parseTreeOrVarOrApp_Cons
  parseMatchTerm_Nil parseMatchTerm_Cons parseMatchClause_Nil parseMatchClause_Cons
  parseDef_Nil parseDef_Cons parseItem_Nil parseItem_Cons
  parseProgramLoop_Nil parseProgramLoop_Cons
  parser_ok_parsePattern parser_ok_parseTerm parser_ok_parseMatchClause
  parseProgram_def treeOrVarOrApp_def startText_def

text \<open>Runs on concrete cursors.\<close>

lemma scenario_definition: "parseProgram [tok TT_letKw ''let'', tok TT_ident ''id'', tok TT_lParen ''('',
    tok TT_ident ''x'', tok TT_rParen '')'', tok TT_eq ''='', tok TT_ident ''x'', tok TT_semi '';'']
  = Ret [DefItem \<lparr>name = ''id'', patterns = [VarPattern ''x''], body = VarTerm ''x''\<rparr>] []"
  by (simp add: parse_eval)

lemma scenario_match: "parseProgram [tok TT_matchKw ''match'', tok TT_ident ''x'', tok TT_lCurly ''{'',
    tok TT_ident ''y'', tok TT_amp ''@'', tok TT_wildcard ''_'', tok TT_arrow ''=>'',
    tok TT_ident ''y'', tok TT_rCurly ''}'', tok TT_semi '';'']
  = Ret [TermItem (MatchTerm [VarTerm ''x'']
      [MatchClause [AsPattern ''y'' WildcardPattern] (VarTerm ''y'')])] []"
  by (simp add: parse_eval)

lemma scenario_application:
  "parseProgram [tok TT_ident ''foo'', tok TT_lParen ''('', tok TT_bareAtom ''1'',
    tok TT_comma '','', tok TT_bareAtom ''2'', tok TT_rParen '')'', tok TT_semi '';'']
  = Ret [TermItem (AppTerm ''foo'' [TreeTerm ''1'' [], TreeTerm ''2'' []])] []"
  by (simp add: parse_eval)

lemma scenario_tree:
  "parseProgram [tok TT_bareAtom ''cons'', tok TT_lParen ''('', tok TT_bareAtom ''1'',
    tok TT_comma '','', tok TT_bareAtom ''nil'', tok TT_rParen '')'', tok TT_semi '';'']
  = Ret [TermItem (TreeTerm ''cons'' [TreeTerm ''1'' [], TreeTerm ''nil'' []])] []"
  by (simp add: parse_eval)

lemma scenario_list:
  "parseProgram [tok TT_lBracket ''['', tok TT_bareAtom ''1'', tok TT_comma '','',
    tok TT_bareAtom ''2'', tok TT_comma '','', tok TT_bareAtom ''3'', tok TT_rBracket '']'',
    tok TT_semi '';'']
  = Ret [TermItem (ListTerm [TreeTerm ''1'' [], TreeTerm ''2'' [], TreeTerm ''3'' []])] []"
  by (simp add: parse_eval)

section \<open>Lists, nesting and the colon\<close>

lemma parseCommaSep_Nil_iff:
  "parseCommaSep p stop l = Ret es l' \<Longrightarrow> (es = []) = (\<not> hasMore l \<or> peekIs stop l)"
  unfolding parseCommaSep_def by (rule parseCommaSepF_Nil_iff)


lemma parseCommaSep_Nil_same: "parseCommaSep p stop l = Ret [] l' \<Longrightarrow> l' = l"
  unfolding parseCommaSep_def by (rule parseCommaSepF_Nil_same)

lemma ConsTerm_not_left: "ConsTerm a (ConsTerm b c) \<noteq> ConsTerm (ConsTerm a b) c"
proof
  assume "ConsTerm a (ConsTerm b c) = ConsTerm (ConsTerm a b) c"
  then have "size a = size (ConsTerm a b)" by simp
  then show False by simp
qed

lemma ConsPattern_not_left: "ConsPattern a (ConsPattern b c) \<noteq> ConsPattern (ConsPattern a b) c"
proof
  assume "ConsPattern a (ConsPattern b c) = ConsPattern (ConsPattern a b) c"
  then have "size a = size (ConsPattern a b)" by simp
  then show False by simp
qed

lemma parseTerm_grammar:
  "parseTerm l =
     andThen (parseTerm1 l) (\<lambda>a l1.
       if hasMore l1 \<and> peekIs [TT_colon] l1 then
         andThen (pop l1) (\<lambda>_ l2.
         andThen (parseTerm l2) (\<lambda>tl l3. Ret (ConsTerm a tl) l3))
       else Ret a l1)"
  by (subst parseTerm_unfold, rule arg_cong [where f = "andThen (parseTerm1 l)"], intro ext,
      rule parseTermLoop_once)

lemma parsePattern_grammar:
  "parsePattern l =
     andThen (parsePattern1 l) (\<lambda>a l1.
       if hasMore l1 \<and> peekIs [TT_colon] l1 then
         andThen (pop l1) (\<lambda>_ l2.
         andThen (parsePattern l2) (\<lambda>tl l3. Ret (ConsPattern a tl) l3))
       else Ret a l1)"
  by (subst parsePattern_unfold, rule arg_cong [where f = "andThen (parsePattern1 l)"],
      intro ext, rule parsePatternLoop_once)

section \<open>Programs\<close>

lemma parseProgramLoopF_acc:
  "parseProgramLoopF n acc l =
     andThen (parseProgramLoopF n [] l) (\<lambda>rest l3. Ret (acc @ rest) l3)"
proof (induction n arbitrary: acc l)
  case 0
  show ?case by simp
next
  case (Suc n)
  show ?case
  proof (cases "hasMore l")
    case False
    then show ?thesis by simp
  next
    case True
    show ?thesis
    proof (cases "parseItemF n l")
      case (Ret item l1)
      show ?thesis
      proof (cases "expect [TT_semi] l1")
        case (Ret s l2)
        have "parseProgramLoopF n (acc @ [item]) l2 =
            andThen (parseProgramLoopF n [item] l2) (\<lambda>rest l3. Ret (acc @ rest) l3)"
          by (subst Suc.IH, subst (2) Suc.IH) (cases "parseProgramLoopF n [] l2"; simp)
        with True \<open>parseItemF n l = Ret item l1\<close> Ret show ?thesis by simp
      qed (use True \<open>parseItemF n l = Ret item l1\<close> in simp_all)
    qed (use True in simp_all)
  qed
qed

lemma parseProgramLoop_acc:
  "parseProgramLoop acc l = andThen (parseProgramLoop [] l) (\<lambda>rest l3. Ret (acc @ rest) l3)"
  unfolding parseProgramLoop_def by (rule parseProgramLoopF_acc)

lemma parseProgram_Nil: "parseProgram [] = Ret [] []"
  by (simp add: parseProgram_def parseProgramLoop_Nil)

lemma parseProgram_unfold:
  assumes "hasMore l"
  shows "parseProgram l =
     andThen (parseItem l) (\<lambda>item l1.
     andThen (expect [TT_semi] l1) (\<lambda>_ l2.
     andThen (parseProgram l2) (\<lambda>rest l3. Ret (item # rest) l3)))"
proof -
  have "parseProgramLoop [item] = (\<lambda>l2. andThen (parseProgram l2) (\<lambda>rest l3. Ret (item # rest) l3))"
    for item
    by (rule ext, subst parseProgramLoop_acc) (simp add: parseProgram_def)
  with assms show ?thesis
    by (simp add: parseProgram_def parseProgramLoop_unfold [of "[]" l])
qed

lemma parseItemF_suffix: "parseItemF n l = Ret item l1 \<Longrightarrow> suffix l1 l"
  using advances_parseItemF [of l l n] by (simp add: advances_def)

lemma parseProgramLoopF_final:
  "parseProgramLoopF n acc l = Ret its l' \<Longrightarrow>
     l' = [] \<and> (l = [] \<or> tok_type (last l) = TT_semi)"
proof (induction n arbitrary: acc l)
  case 0
  then show ?case by simp
next
  case (Suc n)
  show ?case
  proof (cases l)
    case Nil
    with Suc.prems show ?thesis by simp
  next
    case (Cons t r)
    with Suc.prems obtain item l1 s l2 where
      item: "parseItemF n l = Ret item l1" and s: "l1 = s # l2" "tok_type s = TT_semi"
      and loop: "parseProgramLoopF n (acc @ [item]) l2 = Ret its l'"
      by (auto elim!: andThen_RetE simp: expect_def split: list.splits if_splits)
    from Suc.IH [OF loop] have l': "l' = []" and l2: "l2 = [] \<or> tok_type (last l2) = TT_semi"
      by simp_all
    from parseItemF_suffix [OF item] s obtain ps where l: "l = ps @ s # l2"
      by (auto simp: suffix_def)
    from l2 s have "tok_type (last (s # l2)) = TT_semi" by auto
    with l have "tok_type (last l) = TT_semi" by simp
    with l' show ?thesis by simp
  qed
qed

lemma parseProgram_not_OutOfFuel: "parseProgram l \<noteq> OutOfFuel"
  unfolding parseProgram_def parseProgramLoop_def
  by (rule finishes_parseProgramLoopF [OF _ le_refl, THEN finishesD]) (simp add: fuel_def)

section \<open>Every rule moves the cursor forward\<close>
















lemma finishes_Ret_D: "finishes m Q \<Longrightarrow> m = Ret a l \<Longrightarrow> Q a l"
  by (simp add: finishes_def)





lemma parseDef_suffix: "parseDef l = Ret t l' \<Longrightarrow> suffix l' l"
  using advances_parseDefF [of l l "fuel l"] by (simp add: advances_def parseDef_def)

lemma parseItem_suffix: "parseItem l = Ret t l' \<Longrightarrow> suffix l' l"
  using advances_parseItemF [of l l "fuel l"] by (simp add: advances_def parseItem_def)





section \<open>Comma-separated lists of any length\<close>











section \<open>The errors a parser throws\<close>


















section \<open>What every rule consumes\<close>









section \<open>The claims of the specification\<close>

text \<open>
  C1 (as amended). An identifier not followed by \<open>(\<close> is a \<open>VarTerm\<close>. An identifier
  followed by \<open>(\<close> and at least one argument is an \<open>AppTerm\<close> with these arguments; followed
  by the empty argument list \<open>()\<close> it is a \<open>VarTerm\<close> again.
\<close>

theorem parseTreeOrVarOrApp_ident:
  assumes "tok_type t = TT_ident"
  shows "(\<not> (hasMore r \<and> peekIs [TT_lParen] r) \<longrightarrow>
            parseTreeOrVarOrApp (t # r) = Ret (VarTerm (tok_text t)) r)
       \<and> (tok_type lp = TT_lParen \<and> tok_type rp = TT_rParen \<longrightarrow>
            parseTreeOrVarOrApp (t # lp # rp # r') = Ret (VarTerm (tok_text t)) r')
       \<and> (tok_type lp = TT_lParen \<and> \<not> (hasMore r2 \<and> peekIs [TT_rParen] r2)
            \<and> parseTreeOrVarOrApp (t # lp # r2) = Ret res l' \<longrightarrow>
            (\<exists>rands rp. rands \<noteq> [] \<and> tok_type rp = TT_rParen
               \<and> parseCommaSep parseTerm [TT_rParen] r2 = Ret rands (rp # l')
               \<and> res = AppTerm (tok_text t) rands))"
proof (intro conjI impI)
  assume "\<not> (hasMore r \<and> peekIs [TT_lParen] r)"
  with assms show "parseTreeOrVarOrApp (t # r) = Ret (VarTerm (tok_text t)) r"
    by (auto simp add: parseTreeOrVarOrApp_Cons treeOrVarOrApp_def startText_def)
next
  assume "tok_type lp = TT_lParen \<and> tok_type rp = TT_rParen"
  with assms show "parseTreeOrVarOrApp (t # lp # rp # r') = Ret (VarTerm (tok_text t)) r'"
    by (simp add: parseTreeOrVarOrApp_Cons parseCommaSep_Cons parser_ok_parseTerm
        treeOrVarOrApp_def startText_def)
next
  assume a: "tok_type lp = TT_lParen \<and> \<not> (hasMore r2 \<and> peekIs [TT_rParen] r2)
    \<and> parseTreeOrVarOrApp (t # lp # r2) = Ret res l'"
  with assms obtain rands l3 where
    cs: "parseCommaSep parseTerm [TT_rParen] r2 = Ret rands l3" and
    ex: "andThen (expect [TT_rParen] l3) (\<lambda>_ l4. Ret (treeOrVarOrApp t rands) l4) = Ret res l'"
    by (auto simp add: parseTreeOrVarOrApp_Cons elim!: andThen_RetE)
  from ex obtain rp where l3: "l3 = rp # l'" and rp: "tok_type rp = TT_rParen"
    and res: "res = treeOrVarOrApp t rands"
    by (cases l3) (auto split: if_splits)
  have "rands \<noteq> []"
  proof
    assume "rands = []"
    with cs have "\<not> hasMore r2 \<or> peekIs [TT_rParen] r2" and "l3 = r2"
      using parseCommaSep_Nil_iff [OF cs] parseCommaSepF_Nil_same [of "fuel r2" parseTerm _ r2 l3]
      by (simp_all add: parseCommaSep_def)
    with a l3 show False by auto
  qed
  with assms res cs l3 rp
  show "\<exists>rands rp. rands \<noteq> [] \<and> tok_type rp = TT_rParen
      \<and> parseCommaSep parseTerm [TT_rParen] r2 = Ret rands (rp # l')
      \<and> res = AppTerm (tok_text t) rands"
    by (auto simp add: treeOrVarOrApp_def startText_def)
qed

theorem parseTreeOrVarOrApp_ident_witness:
  "tok_type (tok TT_ident ''f'') = TT_ident
   \<and> parseTreeOrVarOrApp [tok TT_ident ''f'', tok TT_semi '';'']
       = Ret (VarTerm ''f'') [tok TT_semi '';'']
   \<and> parseTreeOrVarOrApp [tok TT_ident ''f'', tok TT_lParen ''('', tok TT_rParen '')'']
       = Ret (VarTerm ''f'') []
   \<and> parseTreeOrVarOrApp
        [tok TT_ident ''f'', tok TT_lParen ''('', tok TT_bareAtom ''a'', tok TT_rParen '')'']
       = Ret (AppTerm ''f'' [TreeTerm ''a'' []]) []
   \<and> (\<exists>rands rp. rands \<noteq> [] \<and> tok_type rp = TT_rParen
         \<and> parseCommaSep parseTerm [TT_rParen] [tok TT_bareAtom ''a'', tok TT_rParen '')'']
             = Ret rands [rp]
         \<and> AppTerm ''f'' [TreeTerm ''a'' []] = AppTerm ''f'' rands)"
  using parseTreeOrVarOrApp_ident [of "tok TT_ident ''f''" "[tok TT_semi '';'']"
      "tok TT_lParen ''(''" "tok TT_rParen '')''" "[]"
      "[tok TT_bareAtom ''a'', tok TT_rParen '')'']" "AppTerm ''f'' [TreeTerm ''a'' []]" "[]"]
  by (simp add: parse_eval)

theorem parseTreeOrVarOrApp_empty_call_counterexample:
  "parseTreeOrVarOrApp [tok TT_ident ''f'', tok TT_lParen ''('', tok TT_rParen '')'']
     = Ret (VarTerm ''f'') []"
  by (simp add: parse_eval)

text \<open>
  C2 (as amended). The \<open>patterns\<close> of a parsed definition are empty exactly when no
  parenthesized parameter list follows the name or the list between the parentheses is
  empty; \<open>let f() = ...\<close> and \<open>let f = ...\<close> give the same \<open>Def\<close>.
\<close>

theorem parseDef_patterns_empty:
  assumes "parseDef (lt # nm # r) = Ret d l'"
  shows "((patterns d = []) =
           (\<not> (hasMore r \<and> peekIs [TT_lParen] r)
            \<or> (\<exists>lp rp r'. r = lp # rp # r' \<and> tok_type lp = TT_lParen \<and> tok_type rp = TT_rParen)))
       \<and> (tok_type lp = TT_lParen \<and> tok_type rp = TT_rParen
            \<and> r = lp # rp # r2 \<and> \<not> (hasMore r2 \<and> peekIs [TT_lParen] r2) \<longrightarrow>
            parseDef (lt # nm # r2) = Ret d l')"
proof (intro conjI impI)
  from assms have lt: "tok_type lt = TT_letKw" and nm: "tok_type nm = TT_ident"
    by (auto simp add: parseDef_Cons split: if_splits)
  show "(patterns d = []) =
      (\<not> (hasMore r \<and> peekIs [TT_lParen] r)
       \<or> (\<exists>lp rp r'. r = lp # rp # r' \<and> tok_type lp = TT_lParen \<and> tok_type rp = TT_rParen))"
  proof (cases "hasMore r \<and> peekIs [TT_lParen] r")
    case False
    with assms lt nm have "patterns d = []"
      by (auto simp add: parseDef_Cons elim!: andThen_RetE)
    with False show ?thesis by simp
  next
    case True
    then obtain p r1 where r: "r = p # r1" and p: "tok_type p = TT_lParen"
      by (cases r) simp_all
    from assms lt nm r p obtain pats l4 where
      cs: "parseCommaSep parsePattern [TT_rParen] r1 = Ret pats l4" and
      ex: "\<exists>t l5. expect [TT_rParen] l4 = Ret t l5" and d: "patterns d = pats"
      by (auto simp add: parseDef_Cons elim!: andThen_RetE)
    from ex have l4: "l4 \<noteq> []" by auto
    have "(pats = []) = (\<exists>rp r'. r1 = rp # r' \<and> tok_type rp = TT_rParen)"
    proof
      assume e: "pats = []"
      with cs have "l4 = r1" by (auto dest: parseCommaSep_Nil_same)
      with parseCommaSep_Nil_iff [OF cs] e l4
      show "\<exists>rp r'. r1 = rp # r' \<and> tok_type rp = TT_rParen"
        by (cases r1) auto
    next
      assume "\<exists>rp r'. r1 = rp # r' \<and> tok_type rp = TT_rParen"
      with parseCommaSep_Nil_iff [OF cs] show "pats = []" by auto
    qed
    with True r p d show ?thesis by auto
  qed
next
  assume a: "tok_type lp = TT_lParen \<and> tok_type rp = TT_rParen
    \<and> r = lp # rp # r2 \<and> \<not> (hasMore r2 \<and> peekIs [TT_lParen] r2)"
  from assms have lt: "tok_type lt = TT_letKw" and nm: "tok_type nm = TT_ident"
    by (auto simp add: parseDef_Cons split: if_splits)
  from a lt nm have "parseDef (lt # nm # r) = parseDef (lt # nm # r2)"
    by (auto simp add: parseDef_Cons parseCommaSep_Cons parser_ok_parsePattern)
  with assms show "parseDef (lt # nm # r2) = Ret d l'" by simp
qed

theorem parseDef_patterns_empty_witness:
  "parseDef [tok TT_letKw ''let'', tok TT_ident ''f'', tok TT_lParen ''('', tok TT_rParen '')'',
      tok TT_eq ''='', tok TT_ident ''x'']
     = Ret \<lparr>name = ''f'', patterns = [], body = VarTerm ''x''\<rparr> []
   \<and> parseDef [tok TT_letKw ''let'', tok TT_ident ''f'', tok TT_eq ''='', tok TT_ident ''x'']
     = Ret \<lparr>name = ''f'', patterns = [], body = VarTerm ''x''\<rparr> []"
  using parseDef_patterns_empty [of "tok TT_letKw ''let''" "tok TT_ident ''f''"
      "[tok TT_lParen ''('', tok TT_rParen '')'', tok TT_eq ''='', tok TT_ident ''x'']"
      "\<lparr>name = ''f'', patterns = [], body = VarTerm ''x''\<rparr>" "[]"
      "tok TT_lParen ''(''" "tok TT_rParen '')''" "[tok TT_eq ''='', tok TT_ident ''x'']"]
  by (simp add: parse_eval)

theorem parseDef_empty_parameter_list_counterexample:
  "patterns \<lparr>name = ''f'', patterns = [], body = VarTerm ''x''\<rparr> = []
   \<and> parseDef [tok TT_letKw ''let'', tok TT_ident ''f'', tok TT_lParen ''('', tok TT_rParen '')'',
      tok TT_eq ''='', tok TT_ident ''x'']
     = Ret \<lparr>name = ''f'', patterns = [], body = VarTerm ''x''\<rparr> []"
  by (simp add: parse_eval)

text \<open>
  C3. The parser accepts a match expression with no subject before the \<open>{\<close>: the list
  \<open>terms\<close> of the resulting \<open>MatchTerm\<close> is empty.
\<close>

theorem parseMatchTerm_no_subject:
  "parseMatchTerm [tok TT_matchKw ''match'', tok TT_lCurly ''{'', tok TT_rCurly ''}'']
     = Ret (MatchTerm [] []) []"
  by (simp add: parse_eval)

text \<open>
  C4. A bare or quoted atom always starts a tree node, in terms and in patterns, whether or
  not a parenthesized list follows and whatever its length; without parentheses the node
  has no children.
\<close>

theorem atom_gives_tree:
  assumes "tok_type t \<in> {TT_bareAtom, TT_quotedAtom}"
  shows "(parseTreeOrVarOrApp (t # r) = Ret res l' \<longrightarrow>
            (\<exists>children. res = TreeTerm (startText t) children))
       \<and> (parseTreePattern (t # r) = Ret pres pl' \<longrightarrow>
            (\<exists>children. pres = TreePattern (startText t) children))
       \<and> (\<not> (hasMore r \<and> peekIs [TT_lParen] r) \<longrightarrow>
            parseTreeOrVarOrApp (t # r) = Ret (TreeTerm (startText t) []) r
            \<and> parseTreePattern (t # r) = Ret (TreePattern (startText t) []) r)
       \<and> (tok_type lp = TT_lParen \<and> tok_type rp = TT_rParen
            \<and> parseCommaSep parseTerm [TT_rParen] r2 = Ret ts (rp # r3) \<longrightarrow>
            parseTreeOrVarOrApp (t # lp # r2) = Ret (TreeTerm (startText t) ts) r3)
       \<and> (tok_type lp = TT_lParen \<and> tok_type rp = TT_rParen
            \<and> parseCommaSep parsePattern [TT_rParen] r2 = Ret ps (rp # r3) \<longrightarrow>
            parseTreePattern (t # lp # r2) = Ret (TreePattern (startText t) ps) r3)
       \<and> parseTerm1 (t # r) = parseTreeOrVarOrApp (t # r)
       \<and> parsePattern1 (t # r) = parseTreePattern (t # r)"
proof (intro conjI impI)
  assume "parseTreeOrVarOrApp (t # r) = Ret res l'"
  with assms show "\<exists>children. res = TreeTerm (startText t) children"
    by (auto simp add: parseTreeOrVarOrApp_Cons treeOrVarOrApp_def
        split: if_splits elim!: andThen_RetE)
next
  assume "parseTreePattern (t # r) = Ret pres pl'"
  with assms show "\<exists>children. pres = TreePattern (startText t) children"
    by (auto simp add: parseTreePattern_Cons split: if_splits elim!: andThen_RetE)
next
  assume "\<not> (hasMore r \<and> peekIs [TT_lParen] r)"
  with assms show "parseTreeOrVarOrApp (t # r) = Ret (TreeTerm (startText t) []) r"
    by (auto simp add: parseTreeOrVarOrApp_Cons treeOrVarOrApp_def)
next
  assume "\<not> (hasMore r \<and> peekIs [TT_lParen] r)"
  with assms show "parseTreePattern (t # r) = Ret (TreePattern (startText t) []) r"
    by (auto simp add: parseTreePattern_Cons)
next
  assume "tok_type lp = TT_lParen \<and> tok_type rp = TT_rParen
    \<and> parseCommaSep parseTerm [TT_rParen] r2 = Ret ts (rp # r3)"
  with assms show "parseTreeOrVarOrApp (t # lp # r2) = Ret (TreeTerm (startText t) ts) r3"
    by (auto simp add: parseTreeOrVarOrApp_Cons treeOrVarOrApp_def)
next
  assume "tok_type lp = TT_lParen \<and> tok_type rp = TT_rParen
    \<and> parseCommaSep parsePattern [TT_rParen] r2 = Ret ps (rp # r3)"
  with assms show "parseTreePattern (t # lp # r2) = Ret (TreePattern (startText t) ps) r3"
    by (auto simp add: parseTreePattern_Cons)
next
  from assms show "parseTerm1 (t # r) = parseTreeOrVarOrApp (t # r)"
    by (auto simp add: parseTerm1_Cons)
next
  from assms show "parsePattern1 (t # r) = parseTreePattern (t # r)"
    by (auto simp add: parsePattern1_Cons)
qed

theorem atom_gives_tree_witness:
  "tok_type (tok TT_quotedAtom [CHR 0x27, CHR ''a'', CHR 0x27]) \<in> {TT_bareAtom, TT_quotedAtom}
   \<and> parseTreeOrVarOrApp [tok TT_quotedAtom [CHR 0x27, CHR ''a'', CHR 0x27], tok TT_semi '';'']
       = Ret (TreeTerm ''a'' []) [tok TT_semi '';'']
   \<and> parseTreePattern [tok TT_quotedAtom [CHR 0x27, CHR ''a'', CHR 0x27], tok TT_semi '';'']
       = Ret (TreePattern ''a'' []) [tok TT_semi '';'']
   \<and> parseTreeOrVarOrApp [tok TT_quotedAtom [CHR 0x27, CHR ''a'', CHR 0x27], tok TT_lParen ''('',
         tok TT_ident ''x'', tok TT_comma '','', tok TT_bareAtom ''b'', tok TT_rParen '')'']
       = Ret (TreeTerm ''a'' [VarTerm ''x'', TreeTerm ''b'' []]) []
   \<and> parseTreePattern [tok TT_quotedAtom [CHR 0x27, CHR ''a'', CHR 0x27], tok TT_lParen ''('',
         tok TT_ident ''x'', tok TT_comma '','', tok TT_bareAtom ''b'', tok TT_rParen '')'']
       = Ret (TreePattern ''a'' [VarPattern ''x'', TreePattern ''b'' []]) []"
  using atom_gives_tree [of "tok TT_quotedAtom [CHR 0x27, CHR ''a'', CHR 0x27]"
      "[tok TT_semi '';'']" "TreeTerm ''a'' []" "[tok TT_semi '';'']"
      "TreePattern ''a'' []" "[tok TT_semi '';'']"
      "tok TT_lParen ''(''" "tok TT_rParen '')''"
      "[tok TT_ident ''x'', tok TT_comma '','', tok TT_bareAtom ''b'', tok TT_rParen '')'']"
      "[VarTerm ''x'', TreeTerm ''b'' []]" "[]" "[VarPattern ''x'', TreePattern ''b'' []]"]
  by (simp add: parse_eval getStringText_def substring_def startsWith_def Let_def)

text \<open>
  C5. The operator \<open>:\<close> is right-associative in both grammars: three operands joined by two
  colons give \<open>Cons a (Cons b c)\<close>, not the left-nested tree.
\<close>

theorem colon_right_associative:
  "(parseTerm1 l = Ret a (c1 # l1) \<and> tok_type c1 = TT_colon
      \<and> parseTerm1 l1 = Ret b (c2 # l2) \<and> tok_type c2 = TT_colon
      \<and> parseTerm1 l2 = Ret c l3 \<and> \<not> (hasMore l3 \<and> peekIs [TT_colon] l3) \<longrightarrow>
      parseTerm l = Ret (ConsTerm a (ConsTerm b c)) l3
      \<and> parseTerm l \<noteq> Ret (ConsTerm (ConsTerm a b) c) l3)
   \<and> (parsePattern1 k = Ret p (d1 # k1) \<and> tok_type d1 = TT_colon
      \<and> parsePattern1 k1 = Ret q (d2 # k2) \<and> tok_type d2 = TT_colon
      \<and> parsePattern1 k2 = Ret s k3 \<and> \<not> (hasMore k3 \<and> peekIs [TT_colon] k3) \<longrightarrow>
      parsePattern k = Ret (ConsPattern p (ConsPattern q s)) k3
      \<and> parsePattern k \<noteq> Ret (ConsPattern (ConsPattern p q) s) k3)"
proof (intro conjI impI)
  assume a: "parseTerm1 l = Ret a (c1 # l1) \<and> tok_type c1 = TT_colon
      \<and> parseTerm1 l1 = Ret b (c2 # l2) \<and> tok_type c2 = TT_colon
      \<and> parseTerm1 l2 = Ret c l3 \<and> \<not> (hasMore l3 \<and> peekIs [TT_colon] l3)"
  then have 3: "parseTerm l2 = Ret c l3"
    by (subst parseTerm_grammar) auto
  with a have 2: "parseTerm l1 = Ret (ConsTerm b c) l3"
    by (subst parseTerm_grammar) auto
  with a show 1: "parseTerm l = Ret (ConsTerm a (ConsTerm b c)) l3"
    by (subst parseTerm_grammar) auto
  show "parseTerm l \<noteq> Ret (ConsTerm (ConsTerm a b) c) l3"
    unfolding 1 using ConsTerm_not_left [of a b c] by simp
next
  assume a: "parsePattern1 k = Ret p (d1 # k1) \<and> tok_type d1 = TT_colon
      \<and> parsePattern1 k1 = Ret q (d2 # k2) \<and> tok_type d2 = TT_colon
      \<and> parsePattern1 k2 = Ret s k3 \<and> \<not> (hasMore k3 \<and> peekIs [TT_colon] k3)"
  then have 3: "parsePattern k2 = Ret s k3"
    by (subst parsePattern_grammar) auto
  with a have 2: "parsePattern k1 = Ret (ConsPattern q s) k3"
    by (subst parsePattern_grammar) auto
  with a show 1: "parsePattern k = Ret (ConsPattern p (ConsPattern q s)) k3"
    by (subst parsePattern_grammar) auto
  show "parsePattern k \<noteq> Ret (ConsPattern (ConsPattern p q) s) k3"
    unfolding 1 using ConsPattern_not_left [of p q s] by simp
qed

theorem colon_right_associative_witness:
  "parseTerm [tok TT_ident ''a'', tok TT_colon '':'', tok TT_ident ''b'', tok TT_colon '':'',
      tok TT_ident ''c'', tok TT_semi '';'']
     = Ret (ConsTerm (VarTerm ''a'') (ConsTerm (VarTerm ''b'') (VarTerm ''c''))) [tok TT_semi '';'']
   \<and> parsePattern [tok TT_ident ''a'', tok TT_colon '':'', tok TT_ident ''b'', tok TT_colon '':'',
      tok TT_ident ''c'', tok TT_arrow ''=>'']
     = Ret (ConsPattern (VarPattern ''a'') (ConsPattern (VarPattern ''b'') (VarPattern ''c'')))
         [tok TT_arrow ''=>'']"
  using colon_right_associative [of
      "[tok TT_ident ''a'', tok TT_colon '':'', tok TT_ident ''b'', tok TT_colon '':'',
        tok TT_ident ''c'', tok TT_semi '';'']"
      "VarTerm ''a''" "tok TT_colon '':''"
      "[tok TT_ident ''b'', tok TT_colon '':'', tok TT_ident ''c'', tok TT_semi '';'']"
      "VarTerm ''b''" "tok TT_colon '':''" "[tok TT_ident ''c'', tok TT_semi '';'']"
      "VarTerm ''c''" "[tok TT_semi '';'']"
      "[tok TT_ident ''a'', tok TT_colon '':'', tok TT_ident ''b'', tok TT_colon '':'',
        tok TT_ident ''c'', tok TT_arrow ''=>'']"
      "VarPattern ''a''" "tok TT_colon '':''"
      "[tok TT_ident ''b'', tok TT_colon '':'', tok TT_ident ''c'', tok TT_arrow ''=>'']"
      "VarPattern ''b''" "tok TT_colon '':''" "[tok TT_ident ''c'', tok TT_arrow ''=>'']"
      "VarPattern ''c''" "[tok TT_arrow ''=>'']"]
  by (simp add: parseTerm1_Cons parsePattern1_Cons parseTreeOrVarOrApp_Cons
      parseVarOrAsPattern_Cons treeOrVarOrApp_def startText_def)




text \<open>
  C7. Unescaping strips exactly the first and the last character of the raw token text and
  replaces the escaped quote of the token's own quote style, and nothing else.
\<close>

theorem getStringText_unescapes:
  "getStringText (c # content @ [d]) =
     replaceEscaped (if c = CHR 0x27 then CHR 0x27 else CHR 0x22) content
   \<and> (\<not> hasEscaped q s \<longrightarrow> replaceEscaped q s = s)
   \<and> (q \<noteq> CHR 0x5C \<and> \<not> hasEscaped q xs \<longrightarrow>
        replaceEscaped q (xs @ CHR 0x5C # q # ys) = xs @ q # replaceEscaped q ys)
   \<and> getStringText [CHR 0x22, CHR ''a'', CHR 0x5C, CHR 0x22, CHR ''b'', CHR 0x22]
        = [CHR ''a'', CHR 0x22, CHR ''b'']
   \<and> getStringText [CHR 0x27, CHR ''a'', CHR 0x5C, CHR 0x27, CHR ''b'', CHR 0x27]
        = [CHR ''a'', CHR 0x27, CHR ''b'']
   \<and> getStringText [CHR 0x22, CHR ''a'', CHR 0x5C, CHR 0x27, CHR ''b'', CHR 0x22]
        = [CHR ''a'', CHR 0x5C, CHR 0x27, CHR ''b'']"
proof -
  have strip: "getStringText (c # content @ [d]) =
      replaceEscaped (if c = CHR 0x27 then CHR 0x27 else CHR 0x22) content"
    unfolding getStringText_def Let_def substring_strip by (simp add: startsWith_def)
  have ex: "getStringText [CHR 0x22, CHR ''a'', CHR 0x5C, CHR 0x22, CHR ''b'', CHR 0x22]
        = [CHR ''a'', CHR 0x22, CHR ''b'']"
    "getStringText [CHR 0x27, CHR ''a'', CHR 0x5C, CHR 0x27, CHR ''b'', CHR 0x27]
        = [CHR ''a'', CHR 0x27, CHR ''b'']"
    "getStringText [CHR 0x22, CHR ''a'', CHR 0x5C, CHR 0x27, CHR ''b'', CHR 0x22]
        = [CHR ''a'', CHR 0x5C, CHR 0x27, CHR ''b'']"
    by (simp_all add: getStringText_def substring_def startsWith_def Let_def)
  show ?thesis
    using strip ex replaceEscaped_none [of q s] replaceEscaped_first [of q xs ys] by blast
qed

theorem getStringText_unescapes_witness:
  "getStringText (CHR 0x22 # [CHR ''a'', CHR 0x5C, CHR ''n''] @ [CHR 0x22]) =
     [CHR ''a'', CHR 0x5C, CHR ''n'']
   \<and> \<not> hasEscaped (CHR 0x22) [CHR ''a'', CHR 0x5C, CHR 0x27, CHR ''b'']
   \<and> replaceEscaped (CHR 0x22) [CHR ''a'', CHR 0x5C, CHR 0x27, CHR ''b'']
        = [CHR ''a'', CHR 0x5C, CHR 0x27, CHR ''b'']
   \<and> CHR 0x27 \<noteq> CHR 0x5C \<and> \<not> hasEscaped (CHR 0x27) [CHR ''a'']
   \<and> replaceEscaped (CHR 0x27) ([CHR ''a''] @ CHR 0x5C # CHR 0x27 # [CHR ''b''])
        = [CHR ''a''] @ CHR 0x27 # [CHR ''b'']"
  using getStringText_unescapes [of "CHR 0x22" "[CHR ''a'', CHR 0x5C, CHR ''n'']" "CHR 0x22"
      "CHR 0x22" "[CHR ''a'', CHR 0x5C, CHR 0x27, CHR ''b'']" "[CHR ''a'']" "[CHR ''b'']"]
    getStringText_unescapes [of "CHR 0x27" "[]" "CHR 0x27"
      "CHR 0x27" "[]" "[CHR ''a'']" "[CHR ''b'']"]
  by simp

text \<open>
  C8. A program parses only if a terminator follows every item, the last one included: a
  successful run leaves nothing, and its input is empty or ends in a terminator; a token
  stream that ends otherwise is rejected, with the cursor's syntax error when the input is
  exhausted right after an item. The items come in input order.
\<close>

theorem parseProgram_terminators:
  "(parseProgram l = Ret items l' \<longrightarrow> l' = [] \<and> (l = [] \<or> tok_type (last l) = TT_semi))
   \<and> (l \<noteq> [] \<and> tok_type (last l) \<noteq> TT_semi \<longrightarrow> (\<exists>e. parseProgram l = Throw e))
   \<and> (hasMore l \<and> parseItem l = Ret item [] \<longrightarrow>
        parseProgram l = Throw SyntaxError \<and> parseProgramLoop acc l = Throw SyntaxError)
   \<and> (hasMore l \<longrightarrow>
        parseProgram l =
          andThen (parseItem l) (\<lambda>item l1.
          andThen (expect [TT_semi] l1) (\<lambda>_ l2.
          andThen (parseProgram l2) (\<lambda>rest l3. Ret (item # rest) l3))))
   \<and> parseProgram [] = Ret [] []"
proof (intro conjI impI)
  assume "parseProgram l = Ret items l'"
  then show "l' = []" and "l = [] \<or> tok_type (last l) = TT_semi"
    unfolding parseProgram_def parseProgramLoop_def
    by (auto dest: parseProgramLoopF_final)
next
  assume a: "l \<noteq> [] \<and> tok_type (last l) \<noteq> TT_semi"
  show "\<exists>e. parseProgram l = Throw e"
  proof (cases "parseProgram l")
    case OutOfFuel
    with parseProgram_not_OutOfFuel show ?thesis by simp
  next
    case (Throw e)
    then show ?thesis by simp
  next
    case (Ret its k)
    then have "l = [] \<or> tok_type (last l) = TT_semi"
      unfolding parseProgram_def parseProgramLoop_def
      by (auto dest: parseProgramLoopF_final)
    with a show ?thesis by simp
  qed
next
  assume a: "hasMore l \<and> parseItem l = Ret item []"
  then show "parseProgramLoop acc l = Throw SyntaxError"
    by (subst parseProgramLoop_unfold) simp
  from a show "parseProgram l = Throw SyntaxError"
    unfolding parseProgram_def by (subst parseProgramLoop_unfold) simp
next
  assume "hasMore l"
  then show "parseProgram l =
      andThen (parseItem l) (\<lambda>item l1.
      andThen (expect [TT_semi] l1) (\<lambda>_ l2.
      andThen (parseProgram l2) (\<lambda>rest l3. Ret (item # rest) l3)))"
    by (rule parseProgram_unfold)
next
  show "parseProgram [] = Ret [] []" by (rule parseProgram_Nil)
qed

theorem parseProgram_terminators_witness:
  "parseProgram [tok TT_ident ''a'', tok TT_semi '';'', tok TT_ident ''b'', tok TT_semi '';'']
     = Ret [TermItem (VarTerm ''a''), TermItem (VarTerm ''b'')] []
   \<and> tok_type (last [tok TT_ident ''a'', tok TT_semi '';'', tok TT_ident ''b'', tok TT_semi '';''])
     = TT_semi
   \<and> tok_type (last [tok TT_ident ''a'', tok TT_semi '';'', tok TT_ident ''b'']) \<noteq> TT_semi
   \<and> parseItem [tok TT_ident ''b''] = Ret (TermItem (VarTerm ''b'')) []
   \<and> parseProgram [tok TT_ident ''b''] = Throw SyntaxError
   \<and> parseProgram [tok TT_ident ''a'', tok TT_semi '';'', tok TT_ident ''b'']
     = Throw SyntaxError"
  using
    parseProgram_terminators [where
      l = "[tok TT_ident ''a'', tok TT_semi '';'', tok TT_ident ''b'', tok TT_semi '';'']"
      and items = "[TermItem (VarTerm ''a''), TermItem (VarTerm ''b'')]" and l' = "[]"
      and item = "TermItem (VarTerm ''b'')" and acc = "[]"]
    parseProgram_terminators [where l = "[tok TT_ident ''b'']"
      and items = "[]" and l' = "[]"
      and item = "TermItem (VarTerm ''b'')" and acc = "[]"]
    parseProgram_terminators [where
      l = "[tok TT_ident ''a'', tok TT_semi '';'', tok TT_ident ''b'']"
      and items = "[]" and l' = "[]"
      and item = "TermItem (VarTerm ''b'')" and acc = "[]"]
  by (simp add: parse_eval)




text \<open>
  C10. In patterns the as-binding takes a whole pattern on its right, so it binds looser
  than \<open>:\<close> there: \<open>x@p:q\<close> is \<open>AsPattern x (ConsPattern p q)\<close>.
\<close>

theorem as_pattern_takes_whole_pattern:
  assumes "tok_type x = TT_ident" and "tok_type amp = TT_amp"
  shows "(parsePattern r = Ret p l' \<longrightarrow>
            parseVarOrAsPattern (x # amp # r) = Ret (AsPattern (tok_text x) p) l'
            \<and> parsePattern (x # amp # r) = Ret (AsPattern (tok_text x) p) l')
       \<and> (parsePattern1 r = Ret p (c # r2) \<and> tok_type c = TT_colon
            \<and> parsePattern r2 = Ret q l' \<longrightarrow>
            parsePattern (x # amp # r) = Ret (AsPattern (tok_text x) (ConsPattern p q)) l'
            \<and> parsePattern (x # amp # r) \<noteq> Ret (ConsPattern (AsPattern (tok_text x) p) q) l')"
proof -
  have whole: "parseVarOrAsPattern (x # amp # r) = Ret (AsPattern (tok_text x) p') k
      \<and> parsePattern (x # amp # r) = Ret (AsPattern (tok_text x) p') k"
    if p': "parsePattern r = Ret p' k" for p' k
  proof
    from assms p' show v: "parseVarOrAsPattern (x # amp # r) = Ret (AsPattern (tok_text x) p') k"
      by (simp add: parseVarOrAsPattern_Cons)
    from assms have "parsePattern1 (x # amp # r) = parseVarOrAsPattern (x # amp # r)"
      by (simp add: parsePattern1_Cons)
    with v parsePattern_noColon [OF p']
    show "parsePattern (x # amp # r) = Ret (AsPattern (tok_text x) p') k"
      by (subst parsePattern_grammar) auto
  qed
  have cons: "parsePattern r = Ret (ConsPattern p q) l'"
    if "parsePattern1 r = Ret p (c # r2) \<and> tok_type c = TT_colon \<and> parsePattern r2 = Ret q l'"
    using that by (subst parsePattern_grammar) auto
  show ?thesis
    using whole [of p l'] whole [OF cons] by auto
qed

theorem as_pattern_takes_whole_pattern_witness:
  "tok_type (tok TT_ident ''x'') = TT_ident \<and> tok_type (tok TT_amp ''@'') = TT_amp
   \<and> parsePattern [tok TT_ident ''x'', tok TT_amp ''@'', tok TT_ident ''p'', tok TT_colon '':'',
        tok TT_ident ''q'', tok TT_arrow ''=>'']
     = Ret (AsPattern ''x'' (ConsPattern (VarPattern ''p'') (VarPattern ''q'')))
         [tok TT_arrow ''=>'']
   \<and> parsePattern [tok TT_ident ''x'', tok TT_amp ''@'', tok TT_ident ''p'', tok TT_colon '':'',
        tok TT_ident ''q'', tok TT_arrow ''=>'']
     \<noteq> Ret (ConsPattern (AsPattern ''x'' (VarPattern ''p'')) (VarPattern ''q''))
         [tok TT_arrow ''=>'']"
  using as_pattern_takes_whole_pattern [of "tok TT_ident ''x''" "tok TT_amp ''@''"
      "[tok TT_ident ''p'', tok TT_colon '':'', tok TT_ident ''q'', tok TT_arrow ''=>'']"
      "VarPattern ''p''" "[tok TT_arrow ''=>'']" "tok TT_colon '':''"
      "[tok TT_ident ''q'', tok TT_arrow ''=>'']" "VarPattern ''q''"]
  by (simp add: parse_eval)

end
